theory Spec2Isabelle
  imports Main "HOL-Library.Word"
begin

section \<open>The element type, the free store and undefined behaviour\<close>

text \<open>
  \<^verbatim>\<open>size_t\<close> is a 64-bit unsigned integer: its arithmetic wraps around.
\<close>

type_synonym size_t = "64 word"

text \<open>
  Everything that ends an operation other than by returning: the exception of the
  checked access, an allocation failure that leaves a constructor, and the C++ undefined
  behaviours the two classes can run into (an access to a slot outside the allocated
  block, with the index of the slot; pointer arithmetic on a range that is none).
\<close>

datatype fault =
    OutOfRange
  | BadAlloc
  | AssertionFailed
  | OutOfBoundsRead nat
  | OutOfBoundsWrite nat
  | BadIterator

text \<open>
  What the template parameter \<^verbatim>\<open>Type\<close> and the run-time environment decide:
  \<^item> \<open>is_arithmetic\<close>: \<^verbatim>\<open>std::is_arithmetic<Type>::value\<close>;
  \<^item> \<open>is_trivially_copyable\<close>: whether \<^verbatim>\<open>std::copy\<close> on \<^verbatim>\<open>Type*\<close> is one
    \<^verbatim>\<open>memmove\<close> of the range (what libstdc++, libc++ and the MSVC library do for
    trivially copyable types, every arithmetic type among them) or the element-wise
    loop of the standard, from \<^verbatim>\<open>first\<close> upwards;
  \<^item> \<open>alloc n\<close>: whether \<^verbatim>\<open>new Type[n]\<close> succeeds;
  \<^item> \<open>junk i\<close>: what slot \<open>i\<close> of a block holds after \<^verbatim>\<open>new Type[n]\<close>, which
    default-initialises.
  The value \<open>0\<close> of the element type stands for \<^verbatim>\<open>Type()\<close>, the value-initialised
  element, which is the number zero for an arithmetic type.
\<close>

record 'a env =
  is_arithmetic :: bool
  is_trivially_copyable :: bool
  alloc :: "size_t \<Rightarrow> bool"
  junk :: "nat \<Rightarrow> 'a"

text \<open>Sequencing of steps that can fail: the first failure ends the operation.\<close>

fun bind :: "fault + 'a \<Rightarrow> ('a \<Rightarrow> fault + 'b) \<Rightarrow> fault + 'b" where
  "bind (Inl f) k = Inl f"
| "bind (Inr x) k = k x"

lemma bind_cong [fundef_cong]:
  "m = m' \<Longrightarrow> (\<And>x. m' = Inr x \<Longrightarrow> k x = k' x) \<Longrightarrow> bind m k = bind m' k'"
  by (cases m') auto

text \<open>\<^verbatim>\<open>new Type[n]()\<close>: a value-initialised block, or no block when the allocation throws.\<close>

definition new_array_value_init :: "'a::zero env \<Rightarrow> size_t \<Rightarrow> 'a list option" where
  "new_array_value_init env n =
     (if alloc env n then Some (replicate (unat n) 0) else None)"

text \<open>
  \<^verbatim>\<open>new Type[n]\<close>: default-initialised. The slots hold what the environment says:
  indeterminate values for an arithmetic type, the default-constructed element for a
  class type with a default constructor.
\<close>

definition new_array_default_init :: "'a env \<Rightarrow> size_t \<Rightarrow> 'a list option" where
  "new_array_default_init env n =
     (if alloc env n then Some (map (junk env) [0 ..< unat n]) else None)"

text \<open>
  \<^verbatim>\<open>std::copy\<close> of \<open>n\<close> elements from slot \<open>first\<close> of one block to slot \<open>d\<close> of
  another block.
\<close>

fun std_copy :: "'a list \<Rightarrow> nat \<Rightarrow> nat \<Rightarrow> 'a list \<Rightarrow> nat \<Rightarrow> fault + 'a list" where
  "std_copy src first 0 dst d = Inr dst"
| "std_copy src first (Suc n) dst d =
     (if \<not> first < length src then Inl (OutOfBoundsRead first)
      else if \<not> d < length dst then Inl (OutOfBoundsWrite d)
      else std_copy src (Suc first) n (dst[d := src ! first]) (Suc d))"

text \<open>
  \<^verbatim>\<open>std::copy\<close> where source and destination lie in the same block. The standard's
  loop assigns \<^verbatim>\<open>*(d + k) = *(first + k)\<close> for \<open>k = 0, 1, ...\<close>, reading what
  earlier assignments wrote.
\<close>

fun copy_forward :: "'a list \<Rightarrow> nat \<Rightarrow> nat \<Rightarrow> nat \<Rightarrow> fault + 'a list" where
  "copy_forward blk first 0 d = Inr blk"
| "copy_forward blk first (Suc n) d =
     (if \<not> first < length blk then Inl (OutOfBoundsRead first)
      else if \<not> d < length blk then Inl (OutOfBoundsWrite d)
      else copy_forward (blk[d := blk ! first]) (Suc first) n (Suc d))"

text \<open>The same call compiled to \<^verbatim>\<open>memmove\<close>: the whole range is read, then written.\<close>

definition copy_memmove :: "'a list \<Rightarrow> nat \<Rightarrow> nat \<Rightarrow> nat \<Rightarrow> fault + 'a list" where
  "copy_memmove blk first n d =
     (if n = 0 then Inr blk
      else if length blk < first + n then Inl (OutOfBoundsRead (max first (length blk)))
      else if length blk < d + n then Inl (OutOfBoundsWrite (max d (length blk)))
      else Inr (take d blk @ take n (drop first blk) @ drop (d + n) blk))"

definition std_copy_within :: "'a env \<Rightarrow> 'a list \<Rightarrow> nat \<Rightarrow> nat \<Rightarrow> nat \<Rightarrow> fault + 'a list" where
  "std_copy_within env blk first n d =
     (if is_trivially_copyable env then copy_memmove blk first n d
      else copy_forward blk first n d)"

section \<open>ArrayPtr\<close>

text \<open>
  The three members \<^verbatim>\<open>memory_\<close>, \<^verbatim>\<open>size_\<close> and \<^verbatim>\<open>capacity_\<close> (a name cannot end
  in an underscore here). \<open>None\<close> is \<^verbatim>\<open>nullptr\<close>; \<open>Some blk\<close> is a pointer to an owned
  block whose slots hold \<open>blk\<close>. A block has one owner at any time, so the owner holds
  its content.
\<close>

record 'a ArrayPtr =
  m_memory :: "'a list option"
  m_size :: size_t
  m_capacity :: size_t

definition block :: "'a ArrayPtr \<Rightarrow> 'a list" where
  "block a = (case m_memory a of None \<Rightarrow> [] | Some blk \<Rightarrow> blk)"

text \<open>\<^verbatim>\<open>ArrayPtr()\<close>, and the state the default member initialisers give.\<close>

definition ArrayPtr_empty :: "'a ArrayPtr" where
  "ArrayPtr_empty = \<lparr>m_memory = None, m_size = 0, m_capacity = 0\<rparr>"

definition ArrayPtr_GetSize :: "'a ArrayPtr \<Rightarrow> size_t" where
  "ArrayPtr_GetSize a = m_size a"

definition ArrayPtr_SetSize :: "size_t \<Rightarrow> 'a ArrayPtr \<Rightarrow> 'a ArrayPtr" where
  "ArrayPtr_SetSize v a = a\<lparr>m_size := v\<rparr>"

definition ArrayPtr_GetCapacity :: "'a ArrayPtr \<Rightarrow> size_t" where
  "ArrayPtr_GetCapacity a = m_capacity a"

definition ArrayPtr_SetCapacity :: "size_t \<Rightarrow> 'a ArrayPtr \<Rightarrow> 'a ArrayPtr" where
  "ArrayPtr_SetCapacity v a = a\<lparr>m_capacity := v\<rparr>"

text \<open>\<^verbatim>\<open>operator[]\<close>, read and written through the reference it returns: no check.\<close>

definition ArrayPtr_get :: "'a ArrayPtr \<Rightarrow> size_t \<Rightarrow> fault + 'a" where
  "ArrayPtr_get a index =
     (if unat index < length (block a) then Inr (block a ! unat index)
      else Inl (OutOfBoundsRead (unat index)))"

definition ArrayPtr_set :: "size_t \<Rightarrow> 'a \<Rightarrow> 'a ArrayPtr \<Rightarrow> fault + 'a ArrayPtr" where
  "ArrayPtr_set index x a =
     (case m_memory a of
        None \<Rightarrow> Inl (OutOfBoundsWrite (unat index))
      | Some blk \<Rightarrow>
          if unat index < length blk then Inr (a\<lparr>m_memory := Some (blk[unat index := x])\<rparr>)
          else Inl (OutOfBoundsWrite (unat index)))"

definition ArrayPtr_At :: "'a ArrayPtr \<Rightarrow> size_t \<Rightarrow> fault + 'a" where
  "ArrayPtr_At a index =
     (if index \<ge> m_size a then Inl OutOfRange else ArrayPtr_get a index)"

definition ArrayPtr_Reserve :: "'a::zero env \<Rightarrow> size_t \<Rightarrow> 'a ArrayPtr \<Rightarrow> fault + 'a ArrayPtr" where
  "ArrayPtr_Reserve env new_capacity a =
     (if new_capacity \<le> ArrayPtr_GetCapacity a then Inr a
      else case new_array_value_init env new_capacity of
        None \<Rightarrow> Inr a
      | Some new_memory \<Rightarrow>
          bind (std_copy (block a) 0 (unat (m_size a)) new_memory 0)
            (\<lambda>new_memory. Inr (a\<lparr>m_capacity := new_capacity, m_memory := Some new_memory\<rparr>)))"

text \<open>The loop of \<^verbatim>\<open>Resize\<close>: \<^verbatim>\<open>for (i = old_size; i < new_size; ++i) memory_[i] = 0\<close>.\<close>

function zero_fill :: "size_t \<Rightarrow> size_t \<Rightarrow> 'a::zero ArrayPtr \<Rightarrow> fault + 'a ArrayPtr" where
  "zero_fill i new_size a =
     (if i < new_size then bind (ArrayPtr_set i 0 a) (zero_fill (i + 1) new_size)
      else Inr a)"
  by pat_completeness auto
termination
proof (relation "measure (\<lambda>(i, new_size, a). unat new_size - unat i)")
  fix i new_size :: size_t and a x :: "'a ArrayPtr"
  assume "i < new_size"
  then have "unat i < unat new_size"
    by (simp add: word_less_nat_alt)
  moreover have "unat new_size < 2 ^ LENGTH(64)"
    by (rule unsigned_less)
  ultimately have "unat i + unat (1 :: size_t) < 2 ^ LENGTH(64)"
    by simp
  then have "unat (i + 1) = unat i + unat (1 :: size_t)"
    by (simp only: unat_add_lem)
  with \<open>unat i < unat new_size\<close> show "((i + 1, new_size, x), (i, new_size, a))
      \<in> measure (\<lambda>(i, new_size, a). unat new_size - unat i)"
    by simp
qed simp

declare zero_fill.simps [simp del]

definition ArrayPtr_Resize :: "'a::zero env \<Rightarrow> size_t \<Rightarrow> 'a ArrayPtr \<Rightarrow> fault + 'a ArrayPtr" where
  "ArrayPtr_Resize env new_size a =
     (let old_size = ArrayPtr_GetSize a in
      bind (ArrayPtr_Reserve env new_size a) (\<lambda>a.
      bind (if is_arithmetic env then zero_fill old_size new_size a else Inr a) (\<lambda>a.
      Inr (ArrayPtr_SetSize new_size a))))"

text \<open>\<^verbatim>\<open>explicit ArrayPtr(size_t size)\<close> and \<^verbatim>\<open>ArrayPtr(size_t size, size_t capacity)\<close>.\<close>

definition ArrayPtr_sized :: "'a::zero env \<Rightarrow> size_t \<Rightarrow> fault + 'a ArrayPtr" where
  "ArrayPtr_sized env sz =
     (if sz > 0 then ArrayPtr_Resize env sz ArrayPtr_empty else Inr ArrayPtr_empty)"

definition ArrayPtr_sized_capacity :: "'a::zero env \<Rightarrow> size_t \<Rightarrow> size_t \<Rightarrow> fault + 'a ArrayPtr" where
  "ArrayPtr_sized_capacity env sz capacity =
     bind (ArrayPtr_Resize env capacity ArrayPtr_empty) (\<lambda>a.
     Inr (ArrayPtr_SetSize sz a))"

text \<open>
  The state the copy constructor builds in \<^verbatim>\<open>tmp\<close> and swaps into the new object. The
  allocation is outside any \<^verbatim>\<open>try\<close>: its failure leaves the constructor.
\<close>

definition ArrayPtr_copy :: "'a::zero env \<Rightarrow> 'a ArrayPtr \<Rightarrow> fault + 'a ArrayPtr" where
  "ArrayPtr_copy env other =
     (let tmp = ArrayPtr_empty\<lparr>m_size := m_size other, m_capacity := m_capacity other\<rparr> in
      case new_array_default_init env (ArrayPtr_GetCapacity tmp) of
        None \<Rightarrow> Inl BadAlloc
      | Some new_memory \<Rightarrow>
          bind (std_copy (block other) 0 (unat (m_size other)) new_memory 0)
            (\<lambda>new_memory. Inr (tmp\<lparr>m_memory := Some new_memory\<rparr>)))"

subsection \<open>Operations on two objects\<close>

text \<open>
  Swap, move and assignment name two objects, which may be the same one. The objects
  live at addresses; \<open>this\<close> and the argument are addresses.
\<close>

type_synonym 'a objects = "nat \<Rightarrow> 'a ArrayPtr"

definition ArrayPtr_swap :: "nat \<Rightarrow> nat \<Rightarrow> 'a objects \<Rightarrow> 'a objects" where
  "ArrayPtr_swap this other \<sigma> = \<sigma>(this := \<sigma> other, other := \<sigma> this)"

text \<open>The constructors start from the default member initialisers of the new object.\<close>

definition ArrayPtr_copy_ctor :: "'a::zero env \<Rightarrow> nat \<Rightarrow> nat \<Rightarrow> 'a objects \<Rightarrow> fault + 'a objects" where
  "ArrayPtr_copy_ctor env this other \<sigma> =
     bind (ArrayPtr_copy env (\<sigma> other)) (\<lambda>tmp. Inr (\<sigma>(this := tmp)))"

definition ArrayPtr_move_ctor :: "nat \<Rightarrow> nat \<Rightarrow> 'a objects \<Rightarrow> 'a objects" where
  "ArrayPtr_move_ctor this other \<sigma> = ArrayPtr_swap this other (\<sigma>(this := ArrayPtr_empty))"

definition ArrayPtr_copy_assign :: "'a::zero env \<Rightarrow> nat \<Rightarrow> nat \<Rightarrow> 'a objects \<Rightarrow> fault + 'a objects" where
  "ArrayPtr_copy_assign env this rhs \<sigma> =
     (if rhs \<noteq> this then bind (ArrayPtr_copy env (\<sigma> rhs)) (\<lambda>tmp. Inr (\<sigma>(this := tmp)))
      else Inr \<sigma>)"

definition ArrayPtr_move_assign :: "nat \<Rightarrow> nat \<Rightarrow> 'a objects \<Rightarrow> 'a objects" where
  "ArrayPtr_move_assign this rhs \<sigma> =
     (if rhs \<noteq> this
      then ArrayPtr_swap this rhs
             (\<sigma>(this := (\<sigma> this)\<lparr>m_memory := None, m_size := 0, m_capacity := 0\<rparr>))
      else \<sigma>)"

section \<open>SimpleVector\<close>

text \<open>
  The class has the one member \<^verbatim>\<open>array_\<close>, so a vector is its \<open>ArrayPtr\<close>. An
  iterator is a \<^verbatim>\<open>Type*\<close>: \<open>None\<close> for \<^verbatim>\<open>nullptr\<close>, \<open>Some i\<close> for the address of slot
  \<open>i\<close> of the block. Pointer arithmetic only computes an address; reading or writing
  through it is what can fail.
\<close>

type_synonym 'a SimpleVector = "'a ArrayPtr"
type_synonym iterator = "size_t option"

definition elem_addr :: "'a ArrayPtr \<Rightarrow> size_t \<Rightarrow> iterator" where
  "elem_addr a index = (if m_memory a = None \<and> index = 0 then None else Some index)"

definition std_next :: "iterator \<Rightarrow> size_t \<Rightarrow> iterator" where
  "std_next it n = (case it of None \<Rightarrow> (if n = 0 then None else Some n) | Some i \<Rightarrow> Some (i + n))"

definition std_distance :: "iterator \<Rightarrow> iterator \<Rightarrow> fault + size_t" where
  "std_distance first last_it =
     (case (first, last_it) of
        (None, None) \<Rightarrow> Inr 0
      | (Some f, Some l) \<Rightarrow> Inr (l - f)
      | _ \<Rightarrow> Inl BadIterator)"

text \<open>\<^verbatim>\<open>std::copy(first, last, d_first)\<close> on three iterators of the vector's block.\<close>

definition std_copy_iter ::
  "'a env \<Rightarrow> iterator \<Rightarrow> iterator \<Rightarrow> iterator \<Rightarrow> 'a ArrayPtr \<Rightarrow> fault + 'a ArrayPtr" where
  "std_copy_iter env first last_it d_first a =
     (case (first, last_it, d_first) of
        (Some f, Some l, Some d) \<Rightarrow>
          if l < f then Inl BadIterator
          else bind (std_copy_within env (block a) (unat f) (unat l - unat f) (unat d))
                 (\<lambda>blk. Inr (a\<lparr>m_memory := map_option (\<lambda>_. blk) (m_memory a)\<rparr>))
      | (None, None, _) \<Rightarrow> Inr a
      | _ \<Rightarrow> Inl BadIterator)"

definition SimpleVector_GetSize :: "'a SimpleVector \<Rightarrow> size_t" where
  "SimpleVector_GetSize v = ArrayPtr_GetSize v"

definition SimpleVector_GetCapacity :: "'a SimpleVector \<Rightarrow> size_t" where
  "SimpleVector_GetCapacity v = ArrayPtr_GetCapacity v"

definition SimpleVector_IsEmpty :: "'a SimpleVector \<Rightarrow> bool" where
  "SimpleVector_IsEmpty v = (ArrayPtr_GetSize v = 0)"

definition SimpleVector_begin :: "'a SimpleVector \<Rightarrow> iterator" where
  "SimpleVector_begin v = (if SimpleVector_IsEmpty v then None else elem_addr v 0)"

definition SimpleVector_end :: "'a SimpleVector \<Rightarrow> iterator" where
  "SimpleVector_end v =
     (if SimpleVector_IsEmpty v then None else elem_addr v (SimpleVector_GetSize v))"

definition SimpleVector_cbegin :: "'a SimpleVector \<Rightarrow> iterator" where
  "SimpleVector_cbegin v = (if SimpleVector_IsEmpty v then None else elem_addr v 0)"

definition SimpleVector_cend :: "'a SimpleVector \<Rightarrow> iterator" where
  "SimpleVector_cend v =
     (if SimpleVector_IsEmpty v then None else elem_addr v (SimpleVector_GetSize v))"

definition SimpleVector_At :: "'a SimpleVector \<Rightarrow> size_t \<Rightarrow> fault + 'a" where
  "SimpleVector_At v index = ArrayPtr_At v index"

definition SimpleVector_Clear :: "'a SimpleVector \<Rightarrow> 'a SimpleVector" where
  "SimpleVector_Clear v = ArrayPtr_SetSize 0 v"

definition SimpleVector_Resize :: "'a::zero env \<Rightarrow> size_t \<Rightarrow> 'a SimpleVector \<Rightarrow> fault + 'a SimpleVector" where
  "SimpleVector_Resize env new_size v = ArrayPtr_Resize env new_size v"

definition SimpleVector_Reserve :: "'a::zero env \<Rightarrow> size_t \<Rightarrow> 'a SimpleVector \<Rightarrow> fault + 'a SimpleVector" where
  "SimpleVector_Reserve env new_capacity v = ArrayPtr_Reserve env new_capacity v"

definition GrowIfNeed :: "'a::zero env \<Rightarrow> 'a SimpleVector \<Rightarrow> fault + 'a SimpleVector" where
  "GrowIfNeed env v =
     (let current_size = SimpleVector_GetSize v in
      if current_size = 0 then SimpleVector_Resize env 1 v
      else if current_size \<ge> SimpleVector_GetCapacity v
      then SimpleVector_Resize env (SimpleVector_GetCapacity v * 2) v
      else Inr v)"

text \<open>Both overloads of \<^verbatim>\<open>PushBack\<close> and of \<^verbatim>\<open>Insert\<close> take the same steps.\<close>

definition SimpleVector_PushBack :: "'a::zero env \<Rightarrow> 'a \<Rightarrow> 'a SimpleVector \<Rightarrow> fault + 'a SimpleVector" where
  "SimpleVector_PushBack env item v =
     (let old_size = ArrayPtr_GetSize v in
      bind (GrowIfNeed env v) (\<lambda>v.
      ArrayPtr_set old_size item (ArrayPtr_SetSize (old_size + 1) v)))"

definition SimpleVector_Insert ::
  "'a::zero env \<Rightarrow> iterator \<Rightarrow> 'a \<Rightarrow> 'a SimpleVector \<Rightarrow> fault + (iterator \<times> 'a SimpleVector)" where
  "SimpleVector_Insert env pos x v =
     (let old_size = ArrayPtr_GetSize v in
      bind (std_distance (SimpleVector_cbegin v) pos) (\<lambda>index.
      bind (GrowIfNeed env v) (\<lambda>v.
      let v = ArrayPtr_SetSize (old_size + 1) v;
          new_pos = elem_addr v index
      in bind (std_copy_iter env new_pos (SimpleVector_end v)
                 (std_next (SimpleVector_begin v) (index + 1)) v) (\<lambda>v.
         bind (ArrayPtr_set index x v) (\<lambda>v.
         Inr (new_pos, v))))))"

definition SimpleVector_PopBack :: "'a SimpleVector \<Rightarrow> 'a SimpleVector" where
  "SimpleVector_PopBack v =
     (if SimpleVector_IsEmpty v \<noteq> True then ArrayPtr_SetSize (ArrayPtr_GetSize v - 1) v
      else v)"

definition SimpleVector_Erase ::
  "'a env \<Rightarrow> iterator \<Rightarrow> 'a SimpleVector \<Rightarrow> fault + (iterator \<times> 'a SimpleVector)" where
  "SimpleVector_Erase env pos v =
     bind (std_distance (SimpleVector_cbegin v) pos) (\<lambda>index.
     let it_start = elem_addr v (index + 1) in
     bind (std_copy_iter env it_start (SimpleVector_end v)
             (std_next (SimpleVector_begin v) index) v) (\<lambda>v.
     let v = ArrayPtr_SetSize (ArrayPtr_GetSize v - 1) v in
     Inr (if index \<ge> SimpleVector_GetSize v then SimpleVector_end v else elem_addr v index, v)))"

text \<open>The constructors.\<close>

definition SimpleVector_default :: "'a SimpleVector" where
  "SimpleVector_default = ArrayPtr_empty"

definition SimpleVector_sized :: "'a::zero env \<Rightarrow> size_t \<Rightarrow> fault + 'a SimpleVector" where
  "SimpleVector_sized env sz = ArrayPtr_sized env sz"

text \<open>\<^verbatim>\<open>for (it = begin(); it != end(); ++it) *it = value\<close>, on the slots' indices.\<close>

function assign_all :: "size_t \<Rightarrow> size_t \<Rightarrow> 'a \<Rightarrow> 'a ArrayPtr \<Rightarrow> fault + 'a ArrayPtr" where
  "assign_all it last_it x a =
     (if it \<noteq> last_it then bind (ArrayPtr_set it x a) (assign_all (it + 1) last_it x)
      else Inr a)"
  by pat_completeness auto
termination
proof (relation "measure (\<lambda>(it, last_it, x, a). unat (last_it - it))")
  fix it last_it :: size_t and x :: 'a and a y :: "'a ArrayPtr"
  assume "it \<noteq> last_it"
  then have nz: "last_it - it \<noteq> 0"
    by simp
  then have "unat (last_it - it) \<noteq> 0"
    by (simp add: unsigned_eq_0_iff)
  with nz have less: "unat (last_it - it - 1) < unat (last_it - it)"
    by (simp add: unat_minus_one)
  have eq: "last_it - (it + 1) = last_it - it - 1"
    by simp
  show "((it + 1, last_it, x, y), (it, last_it, x, a))
      \<in> measure (\<lambda>(it, last_it, x, a). unat (last_it - it))"
    unfolding in_measure prod.case eq by (rule less)
qed simp

declare assign_all.simps [simp del]

definition SimpleVector_filled :: "'a::zero env \<Rightarrow> size_t \<Rightarrow> 'a \<Rightarrow> fault + 'a SimpleVector" where
  "SimpleVector_filled env sz x =
     bind (ArrayPtr_sized env sz) (\<lambda>v.
     case (SimpleVector_begin v, SimpleVector_end v) of
       (Some it, Some last_it) \<Rightarrow> assign_all it last_it x v
     | (None, None) \<Rightarrow> Inr v
     | _ \<Rightarrow> Inl BadIterator)"

text \<open>\<^verbatim>\<open>for (auto v : init) array_[i++] = v\<close>.\<close>

fun assign_list :: "size_t \<Rightarrow> 'a list \<Rightarrow> 'a ArrayPtr \<Rightarrow> fault + 'a ArrayPtr" where
  "assign_list i [] a = Inr a"
| "assign_list i (x # xs) a = bind (ArrayPtr_set i x a) (assign_list (i + 1) xs)"

definition SimpleVector_init_list :: "'a::zero env \<Rightarrow> 'a list \<Rightarrow> fault + 'a SimpleVector" where
  "SimpleVector_init_list env init =
     bind (ArrayPtr_sized env (of_nat (length init))) (\<lambda>v.
     if \<not> ArrayPtr_GetSize v \<ge> of_nat (length init) then Inl AssertionFailed
     else assign_list 0 init v)"

text \<open>The constructor from the proxy object that \<^verbatim>\<open>Reserve(capacity)\<close> returns.\<close>

definition SimpleVector_reserved :: "'a::zero env \<Rightarrow> size_t \<Rightarrow> fault + 'a SimpleVector" where
  "SimpleVector_reserved env capacity_to_reserve =
     ArrayPtr_sized_capacity env 0 capacity_to_reserve"

text \<open>
  \<^verbatim>\<open>SimpleVector::swap\<close> is \<^verbatim>\<open>std::swap\<close> on the two \<^verbatim>\<open>array_\<close> members: a move
  construction of a temporary and two move assignments.
\<close>

definition SimpleVector_swap :: "nat \<Rightarrow> nat \<Rightarrow> nat \<Rightarrow> 'a objects \<Rightarrow> 'a objects" where
  "SimpleVector_swap tmp this other \<sigma> =
     ArrayPtr_move_assign other tmp
       (ArrayPtr_move_assign this other
         (ArrayPtr_move_ctor tmp this \<sigma>))"

text \<open>
  The move constructor and the move assignment of \<^verbatim>\<open>SimpleVector\<close> are defaulted: they
  are those of the member \<^verbatim>\<open>array_\<close>.
\<close>

definition SimpleVector_move_ctor :: "nat \<Rightarrow> nat \<Rightarrow> 'a objects \<Rightarrow> 'a objects" where
  "SimpleVector_move_ctor this other \<sigma> = ArrayPtr_move_ctor this other \<sigma>"

definition SimpleVector_move_assign :: "nat \<Rightarrow> nat \<Rightarrow> 'a objects \<Rightarrow> 'a objects" where
  "SimpleVector_move_assign this rhs \<sigma> = ArrayPtr_move_assign this rhs \<sigma>"

section \<open>The observable content and the buffer invariant\<close>

text \<open>
  A vector shows the slots \<open>[0, size)\<close> of its block. The invariant of a buffer: the size
  is within the capacity, and the block has as many slots as the capacity says (none for
  \<^verbatim>\<open>nullptr\<close>).
\<close>

definition contents :: "'a ArrayPtr \<Rightarrow> 'a list" where
  "contents a = take (unat (m_size a)) (block a)"

definition valid :: "'a ArrayPtr \<Rightarrow> bool" where
  "valid a = (m_size a \<le> m_capacity a \<and> length (block a) = unat (m_capacity a))"

text \<open>The block has as many slots as the capacity says.\<close>

definition block_fits :: "'a ArrayPtr \<Rightarrow> bool" where
  "block_fits a = (length (block a) = unat (m_capacity a))"

section \<open>Runs of operations\<close>

text \<open>
  A run of \<^verbatim>\<open>PushBack\<close> calls, one per element of a list, that records the capacity
  after every call that changed it.
\<close>

fun push_all ::
  "'a::zero env \<Rightarrow> 'a list \<Rightarrow> 'a SimpleVector \<Rightarrow> fault + (size_t list \<times> 'a SimpleVector)" where
  "push_all env [] v = Inr ([], v)"
| "push_all env (x # xs) v =
     bind (SimpleVector_PushBack env x v) (\<lambda>v'.
     bind (push_all env xs v') (\<lambda>(grown, v'').
     Inr ((if SimpleVector_GetCapacity v' \<noteq> SimpleVector_GetCapacity v
           then [SimpleVector_GetCapacity v'] else []) @ grown, v'')))"

text \<open>
  The states of the objects at all addresses that the public operations reach: the
  constructors, copy, move and swap, \<^verbatim>\<open>SetSize\<close>, a write through \<^verbatim>\<open>operator[]\<close> or an
  iterator, \<^verbatim>\<open>Resize\<close>, \<^verbatim>\<open>Reserve\<close> and the operations of \<^verbatim>\<open>SimpleVector\<close>. The raw
  setter \<^verbatim>\<open>ArrayPtr::SetCapacity\<close>, which \<^verbatim>\<open>SimpleVector\<close> never calls, is left out.
\<close>

inductive reachable :: "'a::zero objects \<Rightarrow> bool" where
  start: "reachable (\<lambda>p. ArrayPtr_empty)"
| default_ctor: "reachable \<sigma> \<Longrightarrow> reachable (\<sigma>(p := ArrayPtr_empty))"
| sized_ctor: "reachable \<sigma> \<Longrightarrow> ArrayPtr_sized env n = Inr a \<Longrightarrow> reachable (\<sigma>(p := a))"
| sized_capacity_ctor:
    "reachable \<sigma> \<Longrightarrow> ArrayPtr_sized_capacity env n c = Inr a \<Longrightarrow> reachable (\<sigma>(p := a))"
| filled_ctor: "reachable \<sigma> \<Longrightarrow> SimpleVector_filled env n x = Inr a \<Longrightarrow> reachable (\<sigma>(p := a))"
| init_list_ctor:
    "reachable \<sigma> \<Longrightarrow> SimpleVector_init_list env xs = Inr a \<Longrightarrow> reachable (\<sigma>(p := a))"
| reserved_ctor:
    "reachable \<sigma> \<Longrightarrow> SimpleVector_reserved env c = Inr a \<Longrightarrow> reachable (\<sigma>(p := a))"
| copy_ctor: "reachable \<sigma> \<Longrightarrow> ArrayPtr_copy_ctor env p q \<sigma> = Inr \<sigma>' \<Longrightarrow> reachable \<sigma>'"
| move_ctor: "reachable \<sigma> \<Longrightarrow> reachable (ArrayPtr_move_ctor p q \<sigma>)"
| copy_assign: "reachable \<sigma> \<Longrightarrow> ArrayPtr_copy_assign env p q \<sigma> = Inr \<sigma>' \<Longrightarrow> reachable \<sigma>'"
| move_assign: "reachable \<sigma> \<Longrightarrow> reachable (ArrayPtr_move_assign p q \<sigma>)"
| swap: "reachable \<sigma> \<Longrightarrow> reachable (ArrayPtr_swap p q \<sigma>)"
| vector_swap: "reachable \<sigma> \<Longrightarrow> reachable (SimpleVector_swap tmp p q \<sigma>)"
| SetSize: "reachable \<sigma> \<Longrightarrow> reachable (\<sigma>(p := ArrayPtr_SetSize n (\<sigma> p)))"
| set: "reachable \<sigma> \<Longrightarrow> ArrayPtr_set i x (\<sigma> p) = Inr a \<Longrightarrow> reachable (\<sigma>(p := a))"
| Resize: "reachable \<sigma> \<Longrightarrow> ArrayPtr_Resize env n (\<sigma> p) = Inr a \<Longrightarrow> reachable (\<sigma>(p := a))"
| Reserve: "reachable \<sigma> \<Longrightarrow> ArrayPtr_Reserve env n (\<sigma> p) = Inr a \<Longrightarrow> reachable (\<sigma>(p := a))"
| PushBack:
    "reachable \<sigma> \<Longrightarrow> SimpleVector_PushBack env x (\<sigma> p) = Inr a \<Longrightarrow> reachable (\<sigma>(p := a))"
| Insert:
    "reachable \<sigma> \<Longrightarrow> SimpleVector_Insert env pos x (\<sigma> p) = Inr (it, a) \<Longrightarrow>
     reachable (\<sigma>(p := a))"
| PopBack: "reachable \<sigma> \<Longrightarrow> reachable (\<sigma>(p := SimpleVector_PopBack (\<sigma> p)))"
| Erase:
    "reachable \<sigma> \<Longrightarrow> SimpleVector_Erase env pos (\<sigma> p) = Inr (it, a) \<Longrightarrow>
     reachable (\<sigma>(p := a))"
| Clear: "reachable \<sigma> \<Longrightarrow> reachable (\<sigma>(p := SimpleVector_Clear (\<sigma> p)))"

section \<open>Concrete element types and vectors\<close>

text \<open>
  \<^verbatim>\<open>int\<close> elements (arithmetic, copied by \<^verbatim>\<open>memmove\<close>), elements of a class type with
  its own copy assignment, and an environment in which every allocation fails.
\<close>

definition int_env :: "int env" where
  "int_env = \<lparr>is_arithmetic = True, is_trivially_copyable = True,
     alloc = (\<lambda>n. True), junk = (\<lambda>i. 0)\<rparr>"

definition class_env :: "int env" where
  "class_env = \<lparr>is_arithmetic = False, is_trivially_copyable = False,
     alloc = (\<lambda>n. True), junk = (\<lambda>i. 0)\<rparr>"

definition no_memory :: "int env \<Rightarrow> int env" where
  "no_memory env = env\<lparr>alloc := (\<lambda>n. False)\<rparr>"

definition v123 :: "int SimpleVector" where
  "v123 = \<lparr>m_memory = Some [1, 2, 3], m_size = 3, m_capacity = 3\<rparr>"

definition two_vectors :: "int objects" where
  "two_vectors = (\<lambda>p. SimpleVector_default)(1 := v123, 2 := \<lparr>m_memory = Some [7, 0], m_size = 1, m_capacity = 2\<rparr>)"

definition v1_of_2 :: "int SimpleVector" where
  "v1_of_2 = \<lparr>m_memory = Some [1, 2], m_size = 1, m_capacity = 2\<rparr>"

definition one_vector :: "int objects" where
  "one_vector = (\<lambda>p. ArrayPtr_empty)(1 := v123)"

definition copied_empty :: "int objects" where
  "copied_empty = (\<lambda>p. ArrayPtr_empty)(1 := \<lparr>m_memory = Some [], m_size = 0, m_capacity = 0\<rparr>)"

definition v_one :: "int SimpleVector" where
  "v_one = \<lparr>m_memory = Some [1], m_size = 1, m_capacity = 1\<rparr>"

definition oversized :: "int SimpleVector" where
  "oversized = \<lparr>m_memory = None, m_size = 5, m_capacity = 0\<rparr>"

section \<open>Properties of the copies, Reserve and Resize\<close>

subsection \<open>The copies and the loops\<close>

lemma std_copy_length:
  "std_copy src first n dst d = Inr r \<Longrightarrow> length r = length dst"
  by (induction n arbitrary: first dst d) (auto split: if_splits)

lemma std_copy_ok:
  "first + n \<le> length src \<Longrightarrow> d + n \<le> length dst \<Longrightarrow>
   std_copy src first n dst d = Inr (take d dst @ take n (drop first src) @ drop (d + n) dst)"
proof (induction n arbitrary: first dst d)
  case 0
  then show ?case by simp
next
  case (Suc n)
  then have "std_copy src first (Suc n) dst d
      = std_copy src (Suc first) n (dst[d := src ! first]) (Suc d)"
    by simp
  also have "\<dots> = Inr (take (Suc d) (dst[d := src ! first]) @ take n (drop (Suc first) src)
      @ drop (Suc d + n) (dst[d := src ! first]))"
    using Suc.prems by (intro Suc.IH) auto
  also have "take (Suc d) (dst[d := src ! first]) = take d dst @ [src ! first]"
    using Suc.prems by (simp add: take_Suc_conv_app_nth)
  also have "drop (Suc d + n) (dst[d := src ! first]) = drop (d + Suc n) dst"
    by simp
  also have "(take d dst @ [src ! first]) @ take n (drop (Suc first) src) @ drop (d + Suc n) dst
      = take d dst @ take (Suc n) (drop first src) @ drop (d + Suc n) dst"
    using Suc.prems by (simp add: Cons_nth_drop_Suc [symmetric] del: drop_Suc_Cons)
  finally show ?case .
qed

lemma copy_forward_length:
  "copy_forward blk first n d = Inr r \<Longrightarrow> length r = length blk"
  by (induction n arbitrary: blk first d) (auto split: if_splits)

lemma std_copy_within_length:
  "std_copy_within env blk first n d = Inr r \<Longrightarrow> length r = length blk"
  by (auto simp: std_copy_within_def copy_memmove_def copy_forward_length split: if_splits)

lemma unat_plus_one: "(i :: size_t) < n \<Longrightarrow> unat (i + 1) = Suc (unat i)"
proof -
  assume "i < n"
  then have "unat i < unat n"
    by (simp add: word_less_nat_alt)
  moreover have "unat n < 2 ^ LENGTH(64)"
    by (rule unsigned_less)
  ultimately have "unat i + unat (1 :: size_t) < 2 ^ LENGTH(64)"
    by simp
  then have "unat (i + 1) = unat i + unat (1 :: size_t)"
    by (simp only: unat_add_lem)
  then show ?thesis by simp
qed

lemma zero_fill_ok:
  "m_memory a = Some blk \<Longrightarrow> unat new_size \<le> length blk \<Longrightarrow> i \<le> new_size \<Longrightarrow>
   zero_fill i new_size a =
     Inr (a\<lparr>m_memory := Some (take (unat i) blk @ replicate (unat new_size - unat i) 0
                               @ drop (unat new_size) blk)\<rparr>)"
proof (induction i new_size a arbitrary: blk rule: zero_fill.induct)
  case (1 i new_size a)
  show ?case
  proof (cases "i < new_size")
    case True
    then have lt: "unat i < unat new_size"
      by (simp add: word_less_nat_alt)
    have suc: "unat (i + 1) = Suc (unat i)"
      using True by (rule unat_plus_one)
    have le: "i + 1 \<le> new_size"
      using lt suc by (simp add: word_le_nat_alt)
    let ?a' = "a\<lparr>m_memory := Some (blk[unat i := 0])\<rparr>"
    have set: "ArrayPtr_set i 0 a = Inr ?a'"
      using "1.prems" lt by (simp add: ArrayPtr_set_def)
    have "zero_fill i new_size a = zero_fill (i + 1) new_size ?a'"
      using True set by (subst zero_fill.simps) simp
    also have "\<dots> = Inr (?a'\<lparr>m_memory := Some (take (unat (i + 1)) (blk[unat i := 0])
         @ replicate (unat new_size - unat (i + 1)) 0 @ drop (unat new_size) (blk[unat i := 0]))\<rparr>)"
      using "1.prems" le by (intro "1.IH" [OF True set]) auto
    also have "take (unat (i + 1)) (blk[unat i := 0]) = take (unat i) blk @ [0]"
      using "1.prems" lt by (simp add: suc take_Suc_conv_app_nth)
    also have "drop (unat new_size) (blk[unat i := 0]) = drop (unat new_size) blk"
      using lt by simp
    also have "(take (unat i) blk @ [0]) @ replicate (unat new_size - unat (i + 1)) 0
        @ drop (unat new_size) blk
      = take (unat i) blk @ replicate (unat new_size - unat i) 0 @ drop (unat new_size) blk"
      using lt by (simp add: suc replicate_Suc [symmetric] Suc_diff_Suc del: replicate_Suc)
    finally show ?thesis by simp
  next
    case False
    with "1.prems" have "i = new_size" by simp
    then show ?thesis
      using "1.prems" by (subst zero_fill.simps) simp
  qed
qed

lemma zero_fill_none:
  "\<not> i < new_size \<Longrightarrow> zero_fill i new_size a = Inr a"
  by (subst zero_fill.simps) simp

subsection \<open>Reserve and Resize on a valid buffer\<close>

lemma valid_size_le: "valid a \<Longrightarrow> unat (m_size a) \<le> length (block a)"
  by (simp add: valid_def word_le_nat_alt)

lemma length_contents: "valid a \<Longrightarrow> length (contents a) = unat (m_size a)"
  by (simp add: contents_def valid_def word_le_nat_alt)

lemma Reserve_noop:
  "new_capacity \<le> m_capacity a \<Longrightarrow> ArrayPtr_Reserve env new_capacity a = Inr a"
  by (simp add: ArrayPtr_Reserve_def ArrayPtr_GetCapacity_def)

lemma Reserve_alloc_fails:
  "\<not> alloc env new_capacity \<Longrightarrow> ArrayPtr_Reserve env new_capacity a = Inr a"
  by (simp add: ArrayPtr_Reserve_def new_array_value_init_def)

lemma Reserve_grow:
  assumes "valid a" and "m_capacity a < new_capacity" and "alloc env new_capacity"
  shows "ArrayPtr_Reserve env new_capacity a =
    Inr (a\<lparr>m_capacity := new_capacity,
           m_memory := Some (contents a @ replicate (unat new_capacity - unat (m_size a)) 0)\<rparr>)"
proof -
  have le: "unat (m_size a) \<le> unat new_capacity"
    using assms by (simp add: valid_def word_le_nat_alt word_less_nat_alt)
  have "std_copy (block a) 0 (unat (m_size a)) (replicate (unat new_capacity) 0) 0
      = Inr (take 0 (replicate (unat new_capacity) 0) @ take (unat (m_size a)) (drop 0 (block a))
          @ drop (0 + unat (m_size a)) (replicate (unat new_capacity) 0))"
    using assms(1) le by (intro std_copy_ok) (simp_all add: valid_size_le)
  then show ?thesis
    using assms(2,3)
    by (simp add: ArrayPtr_Reserve_def ArrayPtr_GetCapacity_def new_array_value_init_def
        contents_def not_le [symmetric])
qed

lemma Resize_shrink:
  assumes "valid a" and "new_size \<le> m_size a"
  shows "ArrayPtr_Resize env new_size a = Inr (a\<lparr>m_size := new_size\<rparr>)"
proof -
  have "new_size \<le> m_capacity a"
    using assms by (auto simp: valid_def)
  moreover have "\<not> m_size a < new_size"
    using assms(2) by simp
  ultimately show ?thesis
    by (simp add: ArrayPtr_Resize_def Reserve_noop zero_fill_none ArrayPtr_GetSize_def
        ArrayPtr_SetSize_def Let_def)
qed

lemma Resize_within:
  assumes "valid a" and "m_size a < new_size" and "new_size \<le> m_capacity a"
  shows "ArrayPtr_Resize env new_size a =
    Inr (a\<lparr>m_memory :=
              (if is_arithmetic env
               then Some (contents a @ replicate (unat new_size - unat (m_size a)) 0
                          @ drop (unat new_size) (block a))
               else m_memory a),
           m_size := new_size\<rparr>)"
proof (cases "is_arithmetic env")
  case True
  have "unat new_size \<le> length (block a)"
    using assms by (simp add: valid_def word_le_nat_alt)
  moreover from this assms(2) obtain blk where blk: "m_memory a = Some blk"
    by (cases "m_memory a") (auto simp: block_def word_less_nat_alt)
  ultimately have "zero_fill (m_size a) new_size a =
     Inr (a\<lparr>m_memory := Some (take (unat (m_size a)) blk
        @ replicate (unat new_size - unat (m_size a)) 0 @ drop (unat new_size) blk)\<rparr>)"
    using assms(2) by (intro zero_fill_ok) (simp_all add: block_def)
  then show ?thesis
    using True assms(3) blk
    by (simp add: ArrayPtr_Resize_def Reserve_noop ArrayPtr_GetSize_def ArrayPtr_SetSize_def
        contents_def block_def Let_def)
next
  case False
  then show ?thesis
    using assms(3)
    by (simp add: ArrayPtr_Resize_def Reserve_noop ArrayPtr_GetSize_def ArrayPtr_SetSize_def
        Let_def)
qed

lemma Resize_grow:
  assumes "valid a" and "m_capacity a < new_size" and "alloc env new_size"
  shows "ArrayPtr_Resize env new_size a =
    Inr \<lparr>m_memory = Some (contents a @ replicate (unat new_size - unat (m_size a)) 0),
         m_size = new_size, m_capacity = new_size\<rparr>"
proof -
  let ?blk = "contents a @ replicate (unat new_size - unat (m_size a)) 0"
  let ?a1 = "a\<lparr>m_capacity := new_size, m_memory := Some ?blk\<rparr>"
  have lt: "m_size a < new_size"
    using assms(1,2) by (auto simp: valid_def)
  then have le: "unat (m_size a) \<le> unat new_size"
    by (simp add: word_less_nat_alt)
  have len: "length ?blk = unat new_size"
    using assms(1) le by (simp add: length_contents)
  have reserve: "ArrayPtr_Reserve env new_size a = Inr ?a1"
    using assms by (rule Reserve_grow)
  have lenc: "length (contents a) = unat (m_size a)"
    using assms(1) by (rule length_contents)
  have raw: "zero_fill (m_size a) new_size ?a1 =
     Inr (?a1\<lparr>m_memory := Some (take (unat (m_size a)) ?blk
        @ replicate (unat new_size - unat (m_size a)) 0 @ drop (unat new_size) ?blk)\<rparr>)"
    using lt len by (intro zero_fill_ok) simp_all
  have eq: "take (unat (m_size a)) ?blk
        @ replicate (unat new_size - unat (m_size a)) 0 @ drop (unat new_size) ?blk = ?blk"
    using lenc le by simp
  have fill: "zero_fill (m_size a) new_size ?a1 = Inr ?a1"
    using raw unfolding eq by simp
  show ?thesis
    by (cases "is_arithmetic env")
      (simp_all add: ArrayPtr_Resize_def reserve fill ArrayPtr_GetSize_def ArrayPtr_SetSize_def
        Let_def)
qed

lemma init_list_123: "SimpleVector_init_list int_env [1, 2, 3] = Inr v123"
  by code_simp

lemma valid_v123: "valid v123"
  by (simp add: valid_def v123_def block_def)

section \<open>Reserve when the allocation fails\<close>

text \<open>
  C5: when the allocation of the new block fails, \<^verbatim>\<open>Reserve\<close> returns normally (no
  exception reaches the caller) and the buffer is exactly the one before the call: the
  same pointer and block content, the same size and the same capacity. The same holds
  for \<^verbatim>\<open>SimpleVector::Reserve\<close>, which delegates.
\<close>

theorem Reserve_allocation_failure:
  "\<not> alloc env new_capacity \<Longrightarrow>
   ArrayPtr_Reserve env new_capacity a = Inr a \<and> SimpleVector_Reserve env new_capacity a = Inr a"
  by (simp add: SimpleVector_Reserve_def Reserve_alloc_fails)

theorem Reserve_allocation_failure_witness:
  "\<not> alloc (no_memory int_env) 10 \<and> ArrayPtr_Reserve (no_memory int_env) 10 v123 = Inr v123
   \<and> SimpleVector_Reserve (no_memory int_env) 10 v123 = Inr v123"
  using Reserve_allocation_failure [of "no_memory int_env" 10 v123]
  by (simp add: no_memory_def)

section \<open>Checked access\<close>

text \<open>
  C6: \<^verbatim>\<open>At(i)\<close> throws \<^verbatim>\<open>std::out_of_range\<close> exactly when \<open>i \<ge> GetSize()\<close>, on every
  vector; and on a vector that satisfies the buffer invariant, for \<open>i < GetSize()\<close> it
  returns the element at position \<open>i\<close>.
\<close>

theorem At_bounds_checked:
  "(SimpleVector_At v i = Inl OutOfRange \<longleftrightarrow> i \<ge> SimpleVector_GetSize v) \<and>
   (valid v \<longrightarrow> i < SimpleVector_GetSize v \<longrightarrow>
      SimpleVector_At v i = Inr (contents v ! unat i))"
proof -
  have "unat i < length (block v)" if "i < m_size v" "valid v"
    using that valid_size_le [of v] by (simp add: word_less_nat_alt)
  then show ?thesis
    by (auto simp: SimpleVector_At_def ArrayPtr_At_def ArrayPtr_get_def SimpleVector_GetSize_def
        ArrayPtr_GetSize_def contents_def word_less_nat_alt word_le_nat_alt not_le)
qed

theorem At_bounds_checked_witness:
  "valid v123 \<and> 1 < SimpleVector_GetSize v123 \<and> SimpleVector_At v123 1 = Inr 2
   \<and> SimpleVector_At v123 3 = Inl OutOfRange \<and> SimpleVector_At v123 7 = Inl OutOfRange"
proof -
  have sz: "SimpleVector_GetSize v123 = 3" and second: "contents v123 ! unat (1 :: size_t) = 2"
    by code_simp+
  have "SimpleVector_At v123 1 = Inr 2"
    using At_bounds_checked [of v123 1, unfolded second sz] valid_v123 by simp
  moreover have "SimpleVector_At v123 3 = Inl OutOfRange" "SimpleVector_At v123 7 = Inl OutOfRange"
    using At_bounds_checked [of v123 3] At_bounds_checked [of v123 7] by (simp_all add: sz)
  ultimately show ?thesis
    using valid_v123 by (simp add: sz)
qed

section \<open>Resize\<close>

text \<open>
  C8: on a vector that satisfies the buffer invariant, \<^verbatim>\<open>Resize(new_size)\<close> with
  \<open>new_size\<close> above the capacity, when the allocation succeeds, leaves a block of exactly
  \<open>new_size\<close> slots (the capacity is \<open>new_size\<close>, not doubled) holding the old elements
  followed by value-initialised ones in \<open>[old_size, new_size)\<close>; with
  \<open>new_size \<le> old_size\<close> it changes the size field and nothing else. The witness is the
  scenario of the specification: \<^verbatim>\<open>Resize(5)\<close> on \<open>{1, 2, 3}\<close> gives \<open>{1, 2, 3, 0, 0}\<close>.
\<close>

theorem Resize_exact:
  "valid v \<Longrightarrow>
   (m_capacity v < new_size \<and> alloc env new_size \<longrightarrow>
      SimpleVector_Resize env new_size v =
        Inr \<lparr>m_memory = Some (contents v @ replicate (unat new_size - unat (m_size v)) 0),
             m_size = new_size, m_capacity = new_size\<rparr>) \<and>
   (new_size \<le> m_size v \<longrightarrow>
      SimpleVector_Resize env new_size v = Inr (v\<lparr>m_size := new_size\<rparr>))"
  by (simp add: SimpleVector_Resize_def Resize_grow Resize_shrink)

theorem Resize_exact_witness:
  "SimpleVector_init_list int_env [1, 2, 3] = Inr v123 \<and> valid v123 \<and>
   m_capacity v123 < 5 \<and> alloc int_env 5 \<and>
   SimpleVector_Resize int_env 5 v123 =
     Inr \<lparr>m_memory = Some [1, 2, 3, 0, 0], m_size = 5, m_capacity = 5\<rparr> \<and>
   2 \<le> m_size v123 \<and>
   SimpleVector_Resize int_env 2 v123 = Inr \<lparr>m_memory = Some [1, 2, 3], m_size = 2, m_capacity = 3\<rparr>"
proof -
  have pre: "m_capacity v123 < 5 \<and> alloc int_env 5" "2 \<le> m_size v123"
    by code_simp+
  have new: "contents v123 @ replicate (unat (5 :: size_t) - unat (m_size v123)) 0 = [1, 2, 3, 0, 0]"
    by code_simp
  have cut: "v123\<lparr>m_size := 2\<rparr> = \<lparr>m_memory = Some [1, 2, 3], m_size = 2, m_capacity = 3\<rparr>"
    by code_simp
  have "SimpleVector_Resize int_env 5 v123 =
     Inr \<lparr>m_memory = Some [1, 2, 3, 0, 0], m_size = 5, m_capacity = 5\<rparr>"
    using Resize_exact [OF valid_v123, of 5 int_env] pre(1) unfolding new by blast
  moreover have "SimpleVector_Resize int_env 2 v123 =
     Inr \<lparr>m_memory = Some [1, 2, 3], m_size = 2, m_capacity = 3\<rparr>"
    using Resize_exact [OF valid_v123, of 2 int_env] pre(2) unfolding cut by blast
  ultimately show ?thesis
    using init_list_123 valid_v123 pre by blast
qed

section \<open>PushBack and the growth policy\<close>

lemma valid_memory:
  "valid v \<Longrightarrow> m_capacity v \<noteq> 0 \<Longrightarrow> \<exists>blk. m_memory v = Some blk \<and> length blk = unat (m_capacity v)"
  by (cases "m_memory v") (auto simp: valid_def block_def unsigned_eq_0_iff)

lemma unat_double:
  "unat (c :: size_t) < 2 ^ 63 \<Longrightarrow> unat (c * 2) = 2 * unat c"
proof -
  assume "unat c < 2 ^ 63"
  then have "unat c * unat (2 :: size_t) < 2 ^ LENGTH(64)"
    by simp
  then have "unat (c * 2) = unat c * unat (2 :: size_t)"
    by (simp only: unat_mult_lem)
  then show ?thesis by simp
qed

lemma GrowIfNeed_ok:
  assumes v: "valid v" and small: "unat (m_size v) < 2 ^ 63" and mem: "\<forall>n. alloc env n"
  shows "\<exists>v1 blk. GrowIfNeed env v = Inr v1
         \<and> m_capacity v1 = (if m_size v = m_capacity v
                              then (if m_capacity v = 0 then 1 else m_capacity v * 2)
                              else m_capacity v)
         \<and> m_memory v1 = Some blk
         \<and> length blk = unat (m_capacity v1)
         \<and> take (unat (m_size v)) blk = contents v
         \<and> unat (m_size v) < length blk"
proof -
  have lenc: "length (contents v) = unat (m_size v)"
    using v by (rule length_contents)
  consider (first) "m_size v = 0" "m_capacity v = 0"
    | (cleared) "m_size v = 0" "m_capacity v \<noteq> 0"
    | (full) "m_size v \<noteq> 0" "m_size v = m_capacity v"
    | (room) "m_size v \<noteq> 0" "m_size v < m_capacity v"
    using v unfolding valid_def by atomize_elim (auto simp: less_le)
  then show ?thesis
  proof cases
    case first
    then have "ArrayPtr_Resize env 1 v =
      Inr \<lparr>m_memory = Some (contents v @ replicate (unat (1 :: size_t) - unat (m_size v)) 0),
           m_size = 1, m_capacity = 1\<rparr>"
      using v mem by (intro Resize_grow) auto
    then show ?thesis
      using first lenc
      by (simp add: GrowIfNeed_def SimpleVector_GetSize_def ArrayPtr_GetSize_def
          SimpleVector_Resize_def)
  next
    case cleared
    then obtain blk where blk: "m_memory v = Some blk" "length blk = unat (m_capacity v)"
      using valid_memory [OF v] by auto
    have pos: "0 < unat (m_capacity v)"
      using cleared(2) by (simp add: unat_gt_0)
    have "1 \<le> m_capacity v"
      using pos by (simp add: word_le_nat_alt)
    then have "ArrayPtr_Resize env 1 v =
      Inr (v\<lparr>m_memory :=
              (if is_arithmetic env
               then Some (contents v @ replicate (unat (1 :: size_t) - unat (m_size v)) 0
                          @ drop (unat (1 :: size_t)) (block v))
               else m_memory v),
           m_size := 1\<rparr>)"
      using v cleared(1) by (intro Resize_within) auto
    then show ?thesis
      using cleared blk pos lenc
      by (cases "is_arithmetic env")
        (auto simp: GrowIfNeed_def SimpleVector_GetSize_def ArrayPtr_GetSize_def
          SimpleVector_Resize_def block_def contents_def)
  next
    case full
    have c63: "unat (m_capacity v) < 2 ^ 63"
      using small full(2) by simp
    have dbl: "unat (m_capacity v * 2) = 2 * unat (m_capacity v)"
      using c63 by (rule unat_double)
    have pos: "0 < unat (m_capacity v)"
      using full by (simp add: unat_gt_0)
    have "m_capacity v < m_capacity v * 2"
      using dbl pos by (simp add: word_less_nat_alt)
    then have "ArrayPtr_Resize env (m_capacity v * 2) v =
      Inr \<lparr>m_memory = Some (contents v @ replicate (unat (m_capacity v * 2) - unat (m_size v)) 0),
           m_size = m_capacity v * 2, m_capacity = m_capacity v * 2\<rparr>"
      using v mem by (intro Resize_grow) auto
    then show ?thesis
      using full lenc dbl pos
      by (simp add: GrowIfNeed_def SimpleVector_GetSize_def ArrayPtr_GetSize_def
          SimpleVector_Resize_def SimpleVector_GetCapacity_def ArrayPtr_GetCapacity_def Let_def)
  next
    case room
    then have ne: "m_capacity v \<noteq> 0"
      by auto
    then obtain blk where blk: "m_memory v = Some blk" "length blk = unat (m_capacity v)"
      using valid_memory [OF v] by auto
    have "unat (m_size v) < unat (m_capacity v)"
      using room(2) by (simp add: word_less_nat_alt)
    moreover have "\<not> m_capacity v \<le> m_size v" "m_size v \<noteq> m_capacity v"
      using room(2) by auto
    ultimately show ?thesis
      using room blk
      by (simp add: GrowIfNeed_def SimpleVector_GetSize_def ArrayPtr_GetSize_def
          SimpleVector_GetCapacity_def ArrayPtr_GetCapacity_def contents_def block_def Let_def)
  qed
qed


lemma unat_succ: "unat (s :: size_t) < n \<Longrightarrow> n \<le> 2 ^ 64 - 1 \<Longrightarrow> unat (s + 1) = Suc (unat s)"
proof -
  assume "unat s < n" "n \<le> 2 ^ 64 - 1"
  then have "unat s + unat (1 :: size_t) < 2 ^ LENGTH(64)"
    by simp
  then have "unat (s + 1) = unat s + unat (1 :: size_t)"
    by (simp only: unat_add_lem)
  then show ?thesis by simp
qed

lemma PushBack_step:
  assumes v: "valid v" and small: "unat (m_size v) < 2 ^ 63" and mem: "\<forall>n. alloc env n"
  shows "\<exists>v'. SimpleVector_PushBack env x v = Inr v'
         \<and> valid v'
         \<and> contents v' = contents v @ [x]
         \<and> m_size v' = m_size v + 1
         \<and> m_capacity v' = (if m_size v = m_capacity v
                              then (if m_capacity v = 0 then 1 else m_capacity v * 2)
                              else m_capacity v)"
proof -
  from GrowIfNeed_ok [OF assms] obtain v1 blk where
    grow: "GrowIfNeed env v = Inr v1"
    and cap: "m_capacity v1 = (if m_size v = m_capacity v
                              then (if m_capacity v = 0 then 1 else m_capacity v * 2)
                              else m_capacity v)"
    and blk: "m_memory v1 = Some blk" "length blk = unat (m_capacity v1)"
    and keep: "take (unat (m_size v)) blk = contents v"
    and room: "unat (m_size v) < length blk"
    by blast
  let ?v' = "(ArrayPtr_SetSize (m_size v + 1) v1)\<lparr>m_memory := Some (blk[unat (m_size v) := x])\<rparr>"
  have suc: "unat (m_size v + 1) = Suc (unat (m_size v))"
    using small by (intro unat_succ [of _ "2 ^ 63"]) simp_all
  have push: "SimpleVector_PushBack env x v = Inr ?v'"
    using grow blk room
    by (simp add: SimpleVector_PushBack_def ArrayPtr_GetSize_def ArrayPtr_set_def
        ArrayPtr_SetSize_def Let_def)
  have "valid ?v'"
    using blk room suc
    by (simp add: valid_def ArrayPtr_SetSize_def block_def word_le_nat_alt)
  moreover have "contents ?v' = contents v @ [x]"
    using room keep suc
    by (simp add: contents_def ArrayPtr_SetSize_def block_def take_Suc_conv_app_nth)
  ultimately show ?thesis
    using push cap by (simp add: ArrayPtr_SetSize_def)
qed

lemma unat_two_power: "j < 64 \<Longrightarrow> unat ((2 :: size_t) ^ j) = 2 ^ j"
proof -
  assume j: "j < 64"
  have "(2 :: size_t) ^ j = word_of_nat (2 ^ j)"
    by simp
  then have "unat ((2 :: size_t) ^ j) = 2 ^ j mod 2 ^ LENGTH(64)"
    by (simp only: unat_of_nat)
  also have "\<dots> = 2 ^ j"
  proof -
    have "(2 :: nat) ^ j < 2 ^ 64"
      using j by (intro power_strict_increasing) simp_all
    then show ?thesis by simp
  qed
  finally show ?thesis .
qed

lemma push_all_doubling:
  assumes mem: "\<forall>n. alloc env n"
  shows "valid v \<Longrightarrow> m_capacity v = 2 ^ j \<Longrightarrow> j < 64 \<Longrightarrow> 2 ^ j < 2 * unat (m_size v) \<Longrightarrow>
     unat (m_size v) + length xs \<le> 2 ^ 63 \<Longrightarrow>
     \<exists>m v'. j < m \<and> push_all env xs v = Inr (map (\<lambda>k. 2 ^ k) [Suc j ..< m], v') \<and> valid v'
       \<and> contents v' = contents v @ xs \<and> m_capacity v' = 2 ^ (m - 1)
       \<and> unat (m_size v) + length xs \<le> 2 ^ (m - 1) \<and> 2 ^ (m - 1) < 2 * (unat (m_size v) + length xs)"
proof (induction xs arbitrary: v j)
  case Nil
  have "unat (m_size v) \<le> unat (m_capacity v)"
    using Nil.prems(1) by (simp add: valid_def word_le_nat_alt)
  then have "unat (m_size v) \<le> 2 ^ j"
    using Nil.prems(2,3) by (simp add: unat_two_power)
  then show ?case
    using Nil.prems by (intro exI [of _ "Suc j"] exI [of _ v]) simp
next
  case (Cons x xs)
  let ?n = "unat (m_size v)"
  have small: "?n < 2 ^ 63"
    using Cons.prems(5) by simp
  have ucap: "unat (m_capacity v) = 2 ^ j"
    using Cons.prems(2,3) by (simp add: unat_two_power)
  have full_iff: "m_size v = m_capacity v \<longleftrightarrow> ?n = 2 ^ j"
    using ucap by (simp add: word_unat_eq_iff)
  have nz: "m_capacity v \<noteq> 0"
    using ucap by (metis power_not_zero unat_eq_0 zero_neq_numeral unsigned_0)
  from PushBack_step [OF Cons.prems(1) small mem, of x] obtain v1 where
    push: "SimpleVector_PushBack env x v = Inr v1"
    and v1: "valid v1" "contents v1 = contents v @ [x]" "m_size v1 = m_size v + 1"
    and cap1: "m_capacity v1 = (if m_size v = m_capacity v then m_capacity v * 2 else m_capacity v)"
    using nz by auto
  have n1: "unat (m_size v1) = Suc ?n"
    using small v1(3) by (simp add: unat_succ [of _ "2 ^ 63"])
  show ?case
  proof (cases "m_size v = m_capacity v")
    case True
    then have n: "?n = 2 ^ j"
      using full_iff by simp
    then have "(2 :: nat) ^ j < 2 ^ 63"
      using small by simp
    then have j63: "j < 63"
      by (intro power_less_imp_less_exp [of 2 j 63]) simp_all
    have c1: "m_capacity v1 = 2 ^ Suc j"
      using cap1 True Cons.prems(2) by simp
    have "unat (m_capacity v1) = 2 ^ Suc j"
      using c1 j63 by (simp only: unat_two_power)
    then have changed: "m_capacity v1 \<noteq> m_capacity v"
      using ucap by (metis n_not_Suc_n power_inject_exp one_less_numeral_iff semiring_norm(76))
    have "\<exists>m v'. Suc j < m \<and> push_all env xs v1 = Inr (map (\<lambda>k. 2 ^ k) [Suc (Suc j) ..< m], v')
       \<and> valid v' \<and> contents v' = contents v1 @ xs \<and> m_capacity v' = 2 ^ (m - 1)
       \<and> unat (m_size v1) + length xs \<le> 2 ^ (m - 1)
       \<and> 2 ^ (m - 1) < 2 * (unat (m_size v1) + length xs)"
      using v1(1) c1 j63 n n1 Cons.prems(5) by (intro Cons.IH) simp_all
    then obtain m v' where
      m: "Suc j < m" and run: "push_all env xs v1 = Inr (map (\<lambda>k. 2 ^ k) [Suc (Suc j) ..< m], v')"
      and rest: "valid v'" "contents v' = contents v1 @ xs" "m_capacity v' = 2 ^ (m - 1)"
        "unat (m_size v1) + length xs \<le> 2 ^ (m - 1)"
        "2 ^ (m - 1) < 2 * (unat (m_size v1) + length xs)"
      by blast
    have "[Suc j ..< m] = Suc j # [Suc (Suc j) ..< m]"
      using m by (simp add: upt_conv_Cons)
    then have "push_all env (x # xs) v = Inr (map (\<lambda>k. 2 ^ k) [Suc j ..< m], v')"
      using push run changed c1
      by (simp add: SimpleVector_GetCapacity_def ArrayPtr_GetCapacity_def)
    then show ?thesis
      using m rest v1(2) n1 by (intro exI [of _ m] exI [of _ v']) simp
  next
    case False
    then have c1: "m_capacity v1 = 2 ^ j"
      using cap1 Cons.prems(2) by simp
    have "\<exists>m v'. j < m \<and> push_all env xs v1 = Inr (map (\<lambda>k. 2 ^ k) [Suc j ..< m], v')
       \<and> valid v' \<and> contents v' = contents v1 @ xs \<and> m_capacity v' = 2 ^ (m - 1)
       \<and> unat (m_size v1) + length xs \<le> 2 ^ (m - 1)
       \<and> 2 ^ (m - 1) < 2 * (unat (m_size v1) + length xs)"
      using v1(1) c1 Cons.prems(3,4,5) n1 by (intro Cons.IH) simp_all
    then obtain m v' where
      m: "j < m" and run: "push_all env xs v1 = Inr (map (\<lambda>k. 2 ^ k) [Suc j ..< m], v')"
      and rest: "valid v'" "contents v' = contents v1 @ xs" "m_capacity v' = 2 ^ (m - 1)"
        "unat (m_size v1) + length xs \<le> 2 ^ (m - 1)"
        "2 ^ (m - 1) < 2 * (unat (m_size v1) + length xs)"
      by blast
    have "push_all env (x # xs) v = Inr (map (\<lambda>k. 2 ^ k) [Suc j ..< m], v')"
      using push run c1 Cons.prems(2)
      by (simp add: SimpleVector_GetCapacity_def ArrayPtr_GetCapacity_def)
    then show ?thesis
      using m rest v1(2) n1 by (intro exI [of _ m] exI [of _ v']) simp
  qed
qed

lemma valid_default: "valid SimpleVector_default"
  by (simp add: valid_def SimpleVector_default_def ArrayPtr_empty_def block_def)

lemma capacity_0_size: "valid v \<Longrightarrow> m_capacity v = 0 \<Longrightarrow> m_size v = 0"
  by (simp add: valid_def)

text \<open>
  C3: while allocation succeeds, on a vector that satisfies the buffer invariant and holds
  fewer than \<open>2 ^ 63\<close> elements, \<^verbatim>\<open>PushBack\<close> appends the element and changes the
  capacity only when the vector is full: from 0 to 1, from \<open>c > 0\<close> to \<open>2 * c\<close>; the capacity
  never decreases. Hence, starting from capacity 0, the capacities after the calls that
  grew the block are \<open>1, 2, 4, ..., 2 ^ (m - 1)\<close>, the last one being the least power of
  two that is at least the number of elements pushed.
\<close>

theorem PushBack_growth:
  assumes mem: "\<forall>n. alloc env n" and v: "valid v" and small: "unat (SimpleVector_GetSize v) < 2 ^ 63"
  shows "(\<exists>v'. SimpleVector_PushBack env x v = Inr v' \<and> contents v' = contents v @ [x]
            \<and> SimpleVector_GetCapacity v' =
                (if SimpleVector_GetSize v = SimpleVector_GetCapacity v
                 then (if SimpleVector_GetCapacity v = 0 then 1 else SimpleVector_GetCapacity v * 2)
                 else SimpleVector_GetCapacity v)
            \<and> SimpleVector_GetCapacity v \<le> SimpleVector_GetCapacity v')
       \<and> (SimpleVector_GetCapacity v = 0 \<longrightarrow> length xs \<le> 2 ^ 63 \<longrightarrow>
            (\<exists>m v'. push_all env xs v = Inr (map (\<lambda>k. 2 ^ k) [0 ..< m], v')
               \<and> contents v' = xs
               \<and> (xs = [] \<and> m = 0 \<or> (\<exists>k. m = Suc k \<and> length xs \<le> 2 ^ k \<and> 2 ^ k < 2 * length xs))))"
proof (intro conjI impI)
  have small': "unat (m_size v) < 2 ^ 63"
    using small by (simp add: SimpleVector_GetSize_def ArrayPtr_GetSize_def)
  from PushBack_step [OF v small' mem, of x] obtain v' where
    push: "SimpleVector_PushBack env x v = Inr v'" "contents v' = contents v @ [x]"
    and cap: "m_capacity v' = (if m_size v = m_capacity v
                              then (if m_capacity v = 0 then 1 else m_capacity v * 2)
                              else m_capacity v)"
    by blast
  have "m_capacity v \<le> m_capacity v * 2" if "m_size v = m_capacity v"
  proof -
    have "unat (m_capacity v * 2) = 2 * unat (m_capacity v)"
      using small' that by (intro unat_double) simp
    then show ?thesis
      by (simp add: word_le_nat_alt)
  qed
  then have "m_capacity v \<le> m_capacity v'"
    using cap by (simp add: word_le_nat_alt)
  then show "\<exists>v'. SimpleVector_PushBack env x v = Inr v' \<and> contents v' = contents v @ [x]
            \<and> SimpleVector_GetCapacity v' =
                (if SimpleVector_GetSize v = SimpleVector_GetCapacity v
                 then (if SimpleVector_GetCapacity v = 0 then 1 else SimpleVector_GetCapacity v * 2)
                 else SimpleVector_GetCapacity v)
            \<and> SimpleVector_GetCapacity v \<le> SimpleVector_GetCapacity v'"
    using push cap
    by (simp add: SimpleVector_GetCapacity_def ArrayPtr_GetCapacity_def SimpleVector_GetSize_def
        ArrayPtr_GetSize_def)
next
  assume "SimpleVector_GetCapacity v = 0" and len: "length xs \<le> 2 ^ 63"
  then have c0: "m_capacity v = 0"
    by (simp add: SimpleVector_GetCapacity_def ArrayPtr_GetCapacity_def)
  then have s0: "m_size v = 0"
    using v by (rule capacity_0_size [rotated])
  then have e: "contents v = []"
    by (simp add: contents_def)
  show "\<exists>m v'. push_all env xs v = Inr (map (\<lambda>k. 2 ^ k) [0 ..< m], v') \<and> contents v' = xs
      \<and> (xs = [] \<and> m = 0 \<or> (\<exists>k. m = Suc k \<and> length xs \<le> 2 ^ k \<and> 2 ^ k < 2 * length xs))"
  proof (cases xs)
    case Nil
    then show ?thesis
      using e by (intro exI [of _ 0] exI [of _ v]) simp
  next
    case (Cons y ys)
    have "unat (m_size v) < 2 ^ 63"
      using s0 by simp
    from PushBack_step [OF v this mem, of y] obtain v1 where
      push: "SimpleVector_PushBack env y v = Inr v1"
      and v1: "valid v1" "contents v1 = [y]" "m_size v1 = 1" "m_capacity v1 = 2 ^ 0"
      using c0 s0 e by auto
    have "\<exists>m v'. 0 < m \<and> push_all env ys v1 = Inr (map (\<lambda>k. 2 ^ k) [Suc 0 ..< m], v') \<and> valid v'
       \<and> contents v' = contents v1 @ ys \<and> m_capacity v' = 2 ^ (m - 1)
       \<and> unat (m_size v1) + length ys \<le> 2 ^ (m - 1)
       \<and> 2 ^ (m - 1) < 2 * (unat (m_size v1) + length ys)"
      using v1 len Cons by (intro push_all_doubling [OF mem]) simp_all
    then obtain m v' where
      m: "0 < m" and run: "push_all env ys v1 = Inr (map (\<lambda>k. 2 ^ k) [Suc 0 ..< m], v')"
      and rest: "contents v' = contents v1 @ ys" "unat (m_size v1) + length ys \<le> 2 ^ (m - 1)"
        "2 ^ (m - 1) < 2 * (unat (m_size v1) + length ys)"
      by blast
    have "[0 ..< m] = 0 # [Suc 0 ..< m]"
      using m by (simp add: upt_conv_Cons)
    then have "push_all env xs v = Inr (map (\<lambda>k. 2 ^ k) [0 ..< m], v')"
      using Cons push run v1(4) c0
      by (simp add: SimpleVector_GetCapacity_def ArrayPtr_GetCapacity_def)
    moreover have "contents v' = xs"
      using rest(1) v1(2) Cons by simp
    moreover have "\<exists>k. m = Suc k \<and> length xs \<le> 2 ^ k \<and> 2 ^ k < 2 * length xs"
      using m rest(2,3) v1(3) Cons by (intro exI [of _ "m - 1"]) simp
    ultimately show ?thesis
      by blast
  qed
qed

theorem PushBack_growth_witness:
  "(\<forall>n. alloc int_env n) \<and> valid (SimpleVector_default :: int SimpleVector)
   \<and> unat (SimpleVector_GetSize (SimpleVector_default :: int SimpleVector)) < 2 ^ 63
   \<and> SimpleVector_GetCapacity (SimpleVector_default :: int SimpleVector) = 0
   \<and> SimpleVector_PushBack int_env 7 SimpleVector_default
       = Inr \<lparr>m_memory = Some [7], m_size = 1, m_capacity = 1\<rparr>
   \<and> (\<exists>m v'. push_all int_env [1, 2, 3, 4, 5] SimpleVector_default
               = Inr (map (\<lambda>k. 2 ^ k) [0 ..< m], v') \<and> contents v' = [1, 2, 3, 4, 5])
   \<and> push_all int_env [1, 2, 3, 4, 5] SimpleVector_default
       = Inr ([1, 2, 4, 8], \<lparr>m_memory = Some [1, 2, 3, 4, 5, 0, 0, 0], m_size = 5, m_capacity = 8\<rparr>)"
proof -
  have mem: "\<forall>n. alloc int_env n"
    by (simp add: int_env_def)
  have small: "unat (SimpleVector_GetSize (SimpleVector_default :: int SimpleVector)) < 2 ^ 63"
    by (simp add: SimpleVector_GetSize_def ArrayPtr_GetSize_def SimpleVector_default_def
        ArrayPtr_empty_def)
  have c0: "SimpleVector_GetCapacity (SimpleVector_default :: int SimpleVector) = 0"
    by (simp add: SimpleVector_GetCapacity_def ArrayPtr_GetCapacity_def SimpleVector_default_def
        ArrayPtr_empty_def)
  have len: "length [1, 2, 3, 4, 5 :: int] \<le> 2 ^ 63"
    by simp
  have one: "SimpleVector_PushBack int_env 7 SimpleVector_default
       = Inr \<lparr>m_memory = Some [7], m_size = 1, m_capacity = 1\<rparr>"
    by code_simp
  have five: "push_all int_env [1, 2, 3, 4, 5] SimpleVector_default
       = Inr ([1, 2, 4, 8], \<lparr>m_memory = Some [1, 2, 3, 4, 5, 0, 0, 0], m_size = 5, m_capacity = 8\<rparr>)"
    by code_simp
  have "\<exists>m v'. push_all int_env [1, 2, 3, 4, 5] SimpleVector_default
               = Inr (map (\<lambda>k. 2 ^ k) [0 ..< m], v') \<and> contents v' = [1, 2, 3, 4, 5]"
    using PushBack_growth [OF mem valid_default small, of 7 "[1, 2, 3, 4, 5]"] c0 len by blast
  then show ?thesis
    using mem valid_default small c0 one five by blast
qed

section \<open>Move\<close>

lemma PushBack_default:
  "alloc env 1 \<Longrightarrow>
   SimpleVector_PushBack env x SimpleVector_default = Inr \<lparr>m_memory = Some [x], m_size = 1, m_capacity = 1\<rparr>"
proof -
  assume mem: "alloc env 1"
  have "ArrayPtr_Resize env 1 SimpleVector_default =
    Inr \<lparr>m_memory = Some (contents (SimpleVector_default :: 'a SimpleVector)
             @ replicate (unat (1 :: size_t) - unat (m_size (SimpleVector_default :: 'a SimpleVector))) 0),
         m_size = 1, m_capacity = 1\<rparr>"
    using valid_default mem
    by (intro Resize_grow) (simp_all add: SimpleVector_default_def ArrayPtr_empty_def)
  then show ?thesis
    by (simp add: SimpleVector_PushBack_def GrowIfNeed_def SimpleVector_Resize_def
        SimpleVector_GetSize_def ArrayPtr_GetSize_def ArrayPtr_SetSize_def ArrayPtr_set_def
        contents_def block_def SimpleVector_default_def ArrayPtr_empty_def Let_def)
qed

text \<open>
  C9: after \<^verbatim>\<open>T = std::move(S)\<close>, by construction or by assignment, with \<open>T\<close> and \<open>S\<close> two
  objects, \<open>S\<close> is the default-constructed vector: its size is 0, and a \<^verbatim>\<open>PushBack\<close> on it
  behaves as on an empty vector (it yields the one-element vector when the allocation
  succeeds); \<open>T\<close> is in the state \<open>S\<close> had, so it holds the elements \<open>S\<close> held.
\<close>

theorem move_leaves_source_empty:
  assumes "T \<noteq> S"
  shows "SimpleVector_move_ctor T S \<sigma> S = SimpleVector_default
       \<and> SimpleVector_move_ctor T S \<sigma> T = \<sigma> S
       \<and> SimpleVector_move_assign T S \<sigma> S = SimpleVector_default
       \<and> SimpleVector_move_assign T S \<sigma> T = \<sigma> S
       \<and> SimpleVector_GetSize (SimpleVector_move_ctor T S \<sigma> S) = 0
       \<and> SimpleVector_GetSize (SimpleVector_move_assign T S \<sigma> S) = 0
       \<and> contents (SimpleVector_move_ctor T S \<sigma> T) = contents (\<sigma> S)
       \<and> contents (SimpleVector_move_assign T S \<sigma> T) = contents (\<sigma> S)
       \<and> (alloc env 1 \<longrightarrow>
            SimpleVector_PushBack env x (SimpleVector_move_ctor T S \<sigma> S)
              = Inr \<lparr>m_memory = Some [x], m_size = 1, m_capacity = 1\<rparr>
          \<and> SimpleVector_PushBack env x (SimpleVector_move_assign T S \<sigma> S)
              = Inr \<lparr>m_memory = Some [x], m_size = 1, m_capacity = 1\<rparr>)"
proof -
  have ctor: "SimpleVector_move_ctor T S \<sigma> S = SimpleVector_default"
    "SimpleVector_move_ctor T S \<sigma> T = \<sigma> S"
    using assms
    by (simp_all add: SimpleVector_move_ctor_def ArrayPtr_move_ctor_def ArrayPtr_swap_def
        SimpleVector_default_def)
  have assign: "SimpleVector_move_assign T S \<sigma> S = SimpleVector_default"
    "SimpleVector_move_assign T S \<sigma> T = \<sigma> S"
    using assms
    by (simp_all add: SimpleVector_move_assign_def ArrayPtr_move_assign_def ArrayPtr_swap_def
        SimpleVector_default_def ArrayPtr_empty_def)
  have "SimpleVector_GetSize (SimpleVector_default :: 'a SimpleVector) = 0"
    by (simp add: SimpleVector_GetSize_def ArrayPtr_GetSize_def SimpleVector_default_def
        ArrayPtr_empty_def)
  then show ?thesis
    by (simp add: ctor assign PushBack_default)
qed

theorem move_leaves_source_empty_witness:
  "(2 :: nat) \<noteq> 1
   \<and> SimpleVector_move_ctor 2 1 two_vectors 1 = SimpleVector_default
   \<and> SimpleVector_move_ctor 2 1 two_vectors 2 = v123
   \<and> SimpleVector_move_assign 2 1 two_vectors 1 = SimpleVector_default
   \<and> SimpleVector_move_assign 2 1 two_vectors 2 = v123
   \<and> alloc int_env 1
   \<and> SimpleVector_PushBack int_env 9 (SimpleVector_move_assign 2 1 two_vectors 1)
        = Inr \<lparr>m_memory = Some [9], m_size = 1, m_capacity = 1\<rparr>"
proof -
  have ne: "(2 :: nat) \<noteq> 1"
    by simp
  have src: "two_vectors 1 = v123"
    by (simp add: two_vectors_def)
  have mem: "alloc int_env 1"
    by (simp add: int_env_def)
  show ?thesis
    using move_leaves_source_empty [OF ne, of two_vectors int_env 9, unfolded src] ne mem
    by blast
qed

section \<open>The shift of Insert\<close>

lemma copy_forward_overrun:
  "0 < n \<Longrightarrow> first + n = length blk \<Longrightarrow>
   copy_forward blk first n (Suc first) = Inl (OutOfBoundsWrite (length blk))"
proof (induction n arbitrary: blk first)
  case 0
  then show ?case by simp
next
  case (Suc n)
  show ?case
  proof (cases n)
    case 0
    then show ?thesis
      using Suc.prems by simp
  next
    case (Suc m)
    then have "copy_forward (blk[Suc first := blk ! first]) (Suc first) n (Suc (Suc first))
        = Inl (OutOfBoundsWrite (length (blk[Suc first := blk ! first])))"
      using Suc.prems by (intro Suc.IH) simp_all
    then show ?thesis
      using Suc.prems Suc by simp
  qed
qed

lemma std_copy_within_overrun:
  "0 < n \<Longrightarrow> first + n = length blk \<Longrightarrow>
   std_copy_within env blk first n (Suc first) = Inl (OutOfBoundsWrite (length blk))"
  by (auto simp: std_copy_within_def copy_memmove_def copy_forward_overrun)

text \<open>
  C10: \<^verbatim>\<open>Insert\<close> copies the range \<open>[index, old_size + 1)\<close> to \<open>index + 1\<close>, so its last
  write is to slot \<open>old_size + 1\<close>. At a valid position of a vector that satisfies the
  invariant, while allocation succeeds: whenever the capacity after \<^verbatim>\<open>GrowIfNeed\<close> is
  below \<open>old_size + 2\<close>, the call writes to slot \<open>old_size + 1\<close>, which is not below the
  capacity, that is, outside the block. The witness is the vector of size 1 and capacity
  2 with an insertion at \<^verbatim>\<open>begin()\<close>.
\<close>

theorem Insert_writes_past_block:
  assumes mem: "\<forall>n. alloc env n" and v: "valid v"
    and small: "unat (SimpleVector_GetSize v) < 2 ^ 63"
    and pos: "std_distance (SimpleVector_cbegin v) pos = Inr index"
      "index \<le> SimpleVector_GetSize v"
    and grow: "GrowIfNeed env v = Inr v1"
    and tight: "unat (SimpleVector_GetCapacity v1) < unat (SimpleVector_GetSize v) + 2"
  shows "SimpleVector_Insert env pos x v
           = Inl (OutOfBoundsWrite (unat (SimpleVector_GetSize v) + 1))
       \<and> unat (SimpleVector_GetCapacity v1) \<le> unat (SimpleVector_GetSize v) + 1"
proof -
  let ?n = "unat (m_size v)"
  have small': "?n < 2 ^ 63"
    using small by (simp add: SimpleVector_GetSize_def ArrayPtr_GetSize_def)
  from GrowIfNeed_ok [OF v small' mem] grow obtain blk where
    blk: "m_memory v1 = Some blk" "length blk = unat (m_capacity v1)"
    and room: "?n < length blk"
    by auto
  have len: "length blk = Suc ?n"
    using tight blk(2) room
    by (simp add: SimpleVector_GetSize_def ArrayPtr_GetSize_def SimpleVector_GetCapacity_def
        ArrayPtr_GetCapacity_def)
  have suc: "unat (m_size v + 1) = Suc ?n"
    using small' by (intro unat_succ [of _ "2 ^ 63"]) simp_all
  then have ne: "m_size v + 1 \<noteq> 0"
    by (metis nat.distinct(1) unsigned_0)
  have i: "unat index \<le> ?n"
    using pos(2) by (simp add: SimpleVector_GetSize_def ArrayPtr_GetSize_def word_le_nat_alt)
  then have isuc: "unat (index + 1) = Suc (unat index)"
    using small' by (intro unat_succ [of _ "2 ^ 63"]) simp_all
  have lt: "\<not> m_size v + 1 < index"
    using i suc by (simp add: word_less_nat_alt)
  let ?v2 = "ArrayPtr_SetSize (m_size v + 1) v1"
  have iters: "elem_addr ?v2 index = Some index" "SimpleVector_end ?v2 = Some (m_size v + 1)"
    "std_next (SimpleVector_begin ?v2) (index + 1) = Some (index + 1)"
    using blk(1) ne
    by (simp_all add: elem_addr_def SimpleVector_end_def SimpleVector_begin_def std_next_def
        SimpleVector_IsEmpty_def SimpleVector_GetSize_def ArrayPtr_GetSize_def ArrayPtr_SetSize_def)
  have "std_copy_within env blk (unat index) (Suc ?n - unat index) (Suc (unat index))
      = Inl (OutOfBoundsWrite (length blk))"
    using i len by (intro std_copy_within_overrun) simp_all
  then have "std_copy_iter env (Some index) (Some (m_size v + 1)) (Some (index + 1)) ?v2
      = Inl (OutOfBoundsWrite (Suc ?n))"
    using lt blk(1) len
    by (simp add: std_copy_iter_def suc isuc block_def ArrayPtr_SetSize_def)
  then have "SimpleVector_Insert env pos x v = Inl (OutOfBoundsWrite (Suc ?n))"
    using pos(1) grow iters
    by (simp add: SimpleVector_Insert_def ArrayPtr_GetSize_def Let_def)
  then show ?thesis
    using len blk(2)
    by (simp add: SimpleVector_GetSize_def ArrayPtr_GetSize_def SimpleVector_GetCapacity_def
        ArrayPtr_GetCapacity_def)
qed

lemma v1_of_2_built:
  "bind (SimpleVector_init_list int_env [1, 2]) (\<lambda>v. Inr (SimpleVector_PopBack v)) = Inr v1_of_2"
  by code_simp

lemma valid_v1_of_2: "valid v1_of_2"
  by (simp add: valid_def v1_of_2_def block_def)

theorem Insert_writes_past_block_witness:
  "(\<forall>n. alloc int_env n) \<and> valid v1_of_2
   \<and> SimpleVector_GetSize v1_of_2 = 1 \<and> SimpleVector_GetCapacity v1_of_2 = 2
   \<and> std_distance (SimpleVector_cbegin v1_of_2) (SimpleVector_begin v1_of_2) = Inr 0
   \<and> GrowIfNeed int_env v1_of_2 = Inr v1_of_2
   \<and> SimpleVector_Insert int_env (SimpleVector_begin v1_of_2) 99 v1_of_2
        = Inl (OutOfBoundsWrite 2)"
proof -
  have mem: "\<forall>n. alloc int_env n"
    by (simp add: int_env_def)
  have sz: "SimpleVector_GetSize v1_of_2 = 1" and cp: "SimpleVector_GetCapacity v1_of_2 = 2"
    by code_simp+
  have small: "unat (SimpleVector_GetSize v1_of_2) < 2 ^ 63"
    by (simp add: sz)
  have pos: "std_distance (SimpleVector_cbegin v1_of_2) (SimpleVector_begin v1_of_2) = Inr 0"
    by code_simp
  have le: "0 \<le> SimpleVector_GetSize v1_of_2"
    by simp
  have grow: "GrowIfNeed int_env v1_of_2 = Inr v1_of_2"
    by code_simp
  have tight: "unat (SimpleVector_GetCapacity v1_of_2) < unat (SimpleVector_GetSize v1_of_2) + 2"
    by (simp add: sz cp)
  have "SimpleVector_Insert int_env (SimpleVector_begin v1_of_2) 99 v1_of_2
        = Inl (OutOfBoundsWrite (unat (SimpleVector_GetSize v1_of_2) + 1))"
    using Insert_writes_past_block [OF mem valid_v1_of_2 small pos le grow tight, of 99] by blast
  then have "SimpleVector_Insert int_env (SimpleVector_begin v1_of_2) 99 v1_of_2
        = Inl (OutOfBoundsWrite 2)"
    by (simp add: sz)
  then show ?thesis
    using mem valid_v1_of_2 sz cp pos grow by blast
qed

section \<open>The data pointer and the capacity\<close>

text \<open>Every operation keeps the block as long as the capacity says.\<close>

lemma block_fits_empty: "block_fits ArrayPtr_empty"
  by (simp add: block_fits_def ArrayPtr_empty_def block_def)

lemma block_fits_SetSize: "block_fits a \<Longrightarrow> block_fits (ArrayPtr_SetSize n a)"
  by (simp add: block_fits_def ArrayPtr_SetSize_def block_def)

lemma block_fits_set: "block_fits a \<Longrightarrow> ArrayPtr_set i x a = Inr b \<Longrightarrow> block_fits b"
  by (auto simp: block_fits_def ArrayPtr_set_def block_def split: option.splits if_splits)

lemma block_fits_Reserve:
  "block_fits a \<Longrightarrow> ArrayPtr_Reserve env n a = Inr b \<Longrightarrow> block_fits b"
proof -
  assume a: "block_fits a" and r: "ArrayPtr_Reserve env n a = Inr b"
  show ?thesis
  proof (cases "n \<le> m_capacity a \<or> \<not> alloc env n")
    case True
    then have "b = a"
      using r by (auto simp: Reserve_noop Reserve_alloc_fails)
    then show ?thesis using a by simp
  next
    case False
    then obtain blk where
      copy: "std_copy (block a) 0 (unat (m_size a)) (replicate (unat n) 0) 0 = Inr blk"
      and b: "b = a\<lparr>m_capacity := n, m_memory := Some blk\<rparr>"
      using r
      by (cases "std_copy (block a) 0 (unat (m_size a)) (replicate (unat n) (0 :: 'a)) 0")
        (auto simp: ArrayPtr_Reserve_def ArrayPtr_GetCapacity_def new_array_value_init_def)
    have "length blk = unat n"
      using std_copy_length [OF copy] by simp
    then show ?thesis
      using b by (simp add: block_fits_def block_def)
  qed
qed

lemma block_fits_zero_fill:
  "block_fits a \<Longrightarrow> zero_fill i n a = Inr b \<Longrightarrow> block_fits b"
proof (induction i n a rule: zero_fill.induct)
  case (1 i new_size a)
  show ?case
  proof (cases "i < new_size")
    case True
    then obtain a' where set: "ArrayPtr_set i 0 a = Inr a'"
      and rest: "zero_fill (i + 1) new_size a' = Inr b"
      using "1.prems"(2)
      by (cases "ArrayPtr_set i 0 a") (auto simp: zero_fill.simps [of i])
    have "block_fits a'"
      using "1.prems"(1) set by (rule block_fits_set)
    then show ?thesis
      using "1.IH" [OF True set] rest by simp
  next
    case False
    then show ?thesis
      using "1.prems" by (simp add: zero_fill.simps [of i])
  qed
qed

lemma block_fits_Resize:
  "block_fits a \<Longrightarrow> ArrayPtr_Resize env n a = Inr b \<Longrightarrow> block_fits b"
proof -
  assume a: "block_fits a" and r: "ArrayPtr_Resize env n a = Inr b"
  from r obtain a1 where a1: "ArrayPtr_Reserve env n a = Inr a1"
    by (cases "ArrayPtr_Reserve env n a") (auto simp: ArrayPtr_Resize_def Let_def)
  with r obtain a2 where
    a2: "(if is_arithmetic env then zero_fill (m_size a) n a1 else Inr a1) = Inr a2"
    and b: "b = ArrayPtr_SetSize n a2"
    by (cases "if is_arithmetic env then zero_fill (m_size a) n a1 else Inr a1")
      (auto simp: ArrayPtr_Resize_def Let_def ArrayPtr_GetSize_def)
  have "block_fits a1"
    using a a1 by (rule block_fits_Reserve)
  then have "block_fits a2"
    using a2 by (auto dest: block_fits_zero_fill split: if_splits)
  then show ?thesis
    using b by (simp add: block_fits_SetSize)
qed

lemma block_fits_sized: "ArrayPtr_sized env n = Inr a \<Longrightarrow> block_fits a"
  by (auto simp: ArrayPtr_sized_def block_fits_empty split: if_splits
      dest: block_fits_Resize [OF block_fits_empty])

lemma block_fits_sized_capacity: "ArrayPtr_sized_capacity env n c = Inr a \<Longrightarrow> block_fits a"
  by (cases "ArrayPtr_Resize env c (ArrayPtr_empty :: 'a ArrayPtr)")
    (auto simp: ArrayPtr_sized_capacity_def block_fits_SetSize
      dest: block_fits_Resize [OF block_fits_empty])

lemma block_fits_copy: "ArrayPtr_copy env a = Inr b \<Longrightarrow> block_fits b"
proof -
  assume c: "ArrayPtr_copy env a = Inr b"
  then obtain new where new: "new_array_default_init env (m_capacity a) = Some new"
    by (cases "new_array_default_init env (m_capacity a)")
      (auto simp: ArrayPtr_copy_def ArrayPtr_GetCapacity_def Let_def)
  with c obtain blk where copy: "std_copy (block a) 0 (unat (m_size a)) new 0 = Inr blk"
    and b: "b = ArrayPtr_empty\<lparr>m_size := m_size a, m_capacity := m_capacity a,
                 m_memory := Some blk\<rparr>"
    by (cases "std_copy (block a) 0 (unat (m_size a)) new 0")
      (auto simp: ArrayPtr_copy_def ArrayPtr_GetCapacity_def Let_def)
  have "length new = unat (m_capacity a)"
    using new by (auto simp: new_array_default_init_def split: if_splits)
  then have "length blk = unat (m_capacity a)"
    using std_copy_length [OF copy] by simp
  then show ?thesis
    using b by (simp add: block_fits_def block_def)
qed

lemma block_fits_copy_iter:
  "block_fits a \<Longrightarrow> std_copy_iter env f l d a = Inr b \<Longrightarrow> block_fits b"
proof -
  assume a: "block_fits a" and c: "std_copy_iter env f l d a = Inr b"
  show ?thesis
  proof (cases "\<exists>fi li di. f = Some fi \<and> l = Some li \<and> d = Some di")
    case True
    then obtain fi li di where it: "f = Some fi" "l = Some li" "d = Some di"
      by blast
    with c obtain blk where
      copy: "std_copy_within env (block a) (unat fi) (unat li - unat fi) (unat di) = Inr blk"
      and b: "b = a\<lparr>m_memory := map_option (\<lambda>_. blk) (m_memory a)\<rparr>"
      by (cases "std_copy_within env (block a) (unat fi) (unat li - unat fi) (unat di)")
        (auto simp: std_copy_iter_def split: if_splits)
    have "length blk = length (block a)"
      using copy by (rule std_copy_within_length)
    then show ?thesis
      using a b by (cases "m_memory a") (simp_all add: block_fits_def block_def)
  next
    case False
    then have "b = a"
      using c by (auto simp: std_copy_iter_def split: option.splits)
    then show ?thesis using a by simp
  qed
qed

lemma block_fits_GrowIfNeed:
  "block_fits v \<Longrightarrow> GrowIfNeed env v = Inr v' \<Longrightarrow> block_fits v'"
  by (auto simp: GrowIfNeed_def SimpleVector_Resize_def Let_def split: if_splits
      dest: block_fits_Resize)

lemma block_fits_PushBack:
  "block_fits v \<Longrightarrow> SimpleVector_PushBack env x v = Inr v' \<Longrightarrow> block_fits v'"
proof -
  assume v: "block_fits v" and p: "SimpleVector_PushBack env x v = Inr v'"
  then obtain v1 where g: "GrowIfNeed env v = Inr v1"
    and s: "ArrayPtr_set (m_size v) x (ArrayPtr_SetSize (m_size v + 1) v1) = Inr v'"
    by (cases "GrowIfNeed env v")
      (auto simp: SimpleVector_PushBack_def Let_def ArrayPtr_GetSize_def)
  have "block_fits (ArrayPtr_SetSize (m_size v + 1) v1)"
    using v g by (intro block_fits_SetSize) (rule block_fits_GrowIfNeed)
  then show ?thesis
    using s by (rule block_fits_set)
qed

lemma block_fits_Insert:
  "block_fits v \<Longrightarrow> SimpleVector_Insert env pos x v = Inr (it, v') \<Longrightarrow> block_fits v'"
proof -
  assume v: "block_fits v" and p: "SimpleVector_Insert env pos x v = Inr (it, v')"
  then obtain index where d: "std_distance (SimpleVector_cbegin v) pos = Inr index"
    by (cases "std_distance (SimpleVector_cbegin v) pos") (auto simp: SimpleVector_Insert_def Let_def)
  with p obtain v1 where g: "GrowIfNeed env v = Inr v1"
    by (cases "GrowIfNeed env v") (auto simp: SimpleVector_Insert_def Let_def)
  let ?v2 = "ArrayPtr_SetSize (m_size v + 1) v1"
  from p d g obtain v3 where
    c: "std_copy_iter env (elem_addr ?v2 index) (SimpleVector_end ?v2)
          (std_next (SimpleVector_begin ?v2) (index + 1)) ?v2 = Inr v3"
    by (cases "std_copy_iter env (elem_addr ?v2 index) (SimpleVector_end ?v2)
          (std_next (SimpleVector_begin ?v2) (index + 1)) ?v2")
      (auto simp: SimpleVector_Insert_def Let_def ArrayPtr_GetSize_def)
  with p d g have s: "ArrayPtr_set index x v3 = Inr v'"
    by (cases "ArrayPtr_set index x v3")
      (auto simp: SimpleVector_Insert_def Let_def ArrayPtr_GetSize_def)
  have "block_fits ?v2"
    using v g by (intro block_fits_SetSize) (rule block_fits_GrowIfNeed)
  then have "block_fits v3"
    using c by (rule block_fits_copy_iter)
  then show ?thesis
    using s by (rule block_fits_set)
qed

lemma block_fits_PopBack: "block_fits v \<Longrightarrow> block_fits (SimpleVector_PopBack v)"
  by (simp add: SimpleVector_PopBack_def block_fits_SetSize)

lemma block_fits_Clear: "block_fits v \<Longrightarrow> block_fits (SimpleVector_Clear v)"
  by (simp add: SimpleVector_Clear_def block_fits_SetSize)

lemma block_fits_Erase:
  "block_fits v \<Longrightarrow> SimpleVector_Erase env pos v = Inr (it, v') \<Longrightarrow> block_fits v'"
proof -
  assume v: "block_fits v" and p: "SimpleVector_Erase env pos v = Inr (it, v')"
  then obtain index where d: "std_distance (SimpleVector_cbegin v) pos = Inr index"
    by (cases "std_distance (SimpleVector_cbegin v) pos") (auto simp: SimpleVector_Erase_def)
  with p obtain v1 where
    c: "std_copy_iter env (elem_addr v (index + 1)) (SimpleVector_end v)
          (std_next (SimpleVector_begin v) index) v = Inr v1"
    and v': "v' = ArrayPtr_SetSize (ArrayPtr_GetSize v1 - 1) v1"
    by (cases "std_copy_iter env (elem_addr v (index + 1)) (SimpleVector_end v)
          (std_next (SimpleVector_begin v) index) v")
      (auto simp: SimpleVector_Erase_def Let_def)
  have "block_fits v1"
    using v c by (rule block_fits_copy_iter)
  then show ?thesis
    using v' by (simp add: block_fits_SetSize)
qed

lemma block_fits_assign_all:
  "block_fits a \<Longrightarrow> assign_all it last_it x a = Inr b \<Longrightarrow> block_fits b"
proof (induction it last_it x a rule: assign_all.induct)
  case (1 it last_it x a)
  show ?case
  proof (cases "it \<noteq> last_it")
    case True
    then obtain a' where set: "ArrayPtr_set it x a = Inr a'"
      and rest: "assign_all (it + 1) last_it x a' = Inr b"
      using "1.prems"(2)
      by (cases "ArrayPtr_set it x a") (auto simp: assign_all.simps [of it])
    have "block_fits a'"
      using "1.prems"(1) set by (rule block_fits_set)
    then show ?thesis
      using "1.IH" [OF True set] rest by simp
  next
    case False
    then have "assign_all it last_it x a = Inr a"
      by (subst assign_all.simps) simp
    then show ?thesis
      using "1.prems" by simp
  qed
qed

lemma block_fits_assign_list:
  "block_fits a \<Longrightarrow> assign_list i xs a = Inr b \<Longrightarrow> block_fits b"
proof (induction xs arbitrary: i a)
  case Nil
  then show ?case by simp
next
  case (Cons x xs)
  then obtain a' where set: "ArrayPtr_set i x a = Inr a'"
    and rest: "assign_list (i + 1) xs a' = Inr b"
    by (cases "ArrayPtr_set i x a") auto
  have "block_fits a'"
    using Cons.prems(1) set by (rule block_fits_set)
  then show ?case
    using rest by (rule Cons.IH)
qed

lemma block_fits_filled: "SimpleVector_filled env n x = Inr v \<Longrightarrow> block_fits v"
proof -
  assume f: "SimpleVector_filled env n x = Inr v"
  then obtain a where a: "ArrayPtr_sized env n = Inr a"
    by (cases "ArrayPtr_sized env n :: fault + 'a ArrayPtr") (auto simp: SimpleVector_filled_def)
  then have "block_fits a"
    by (rule block_fits_sized)
  then show ?thesis
    using f a
    by (auto simp: SimpleVector_filled_def split: option.splits dest: block_fits_assign_all)
qed

lemma block_fits_init_list: "SimpleVector_init_list env xs = Inr v \<Longrightarrow> block_fits v"
proof -
  assume f: "SimpleVector_init_list env xs = Inr v"
  then obtain a where a: "ArrayPtr_sized env (of_nat (length xs)) = Inr a"
    by (cases "ArrayPtr_sized env (of_nat (length xs)) :: fault + 'a ArrayPtr")
      (auto simp: SimpleVector_init_list_def)
  then have "block_fits a"
    by (rule block_fits_sized)
  then show ?thesis
    using f a
    by (auto simp: SimpleVector_init_list_def split: if_splits dest: block_fits_assign_list)
qed

lemma block_fits_reserved: "SimpleVector_reserved env c = Inr v \<Longrightarrow> block_fits v"
  by (simp add: SimpleVector_reserved_def block_fits_sized_capacity)

lemma block_fits_moved_from:
  "block_fits (a\<lparr>m_memory := None, m_size := 0, m_capacity := 0\<rparr>)"
  by (simp add: block_fits_def block_def)

lemma reachable_block_fits: "reachable \<sigma> \<Longrightarrow> block_fits (\<sigma> p)"
proof (induction arbitrary: p rule: reachable.induct)
  case start
  show ?case by (rule block_fits_empty)
next
  case (copy_ctor \<sigma> env p' q \<sigma>')
  then show ?case
    by (cases "ArrayPtr_copy env (\<sigma> q)")
      (auto simp: ArrayPtr_copy_ctor_def dest: block_fits_copy)
next
  case (copy_assign \<sigma> env p' q \<sigma>')
  then show ?case
    by (cases "ArrayPtr_copy env (\<sigma> q)")
      (auto simp: ArrayPtr_copy_assign_def dest: block_fits_copy split: if_splits)
next
  case (move_ctor \<sigma> p' q)
  then show ?case
    by (simp add: ArrayPtr_move_ctor_def ArrayPtr_swap_def block_fits_empty)
next
  case (move_assign \<sigma> p' q)
  then show ?case
    by (simp add: ArrayPtr_move_assign_def ArrayPtr_swap_def block_fits_moved_from)
next
  case (swap \<sigma> p' q)
  then show ?case
    by (simp add: ArrayPtr_swap_def)
next
  case (vector_swap \<sigma> tmp p' q)
  then show ?case
    by (simp add: SimpleVector_swap_def ArrayPtr_move_assign_def ArrayPtr_move_ctor_def
        ArrayPtr_swap_def block_fits_moved_from block_fits_empty)
qed (auto simp: block_fits_empty block_fits_SetSize block_fits_PopBack block_fits_Clear
    dest: block_fits_sized block_fits_sized_capacity block_fits_filled block_fits_init_list
      block_fits_reserved block_fits_set block_fits_Resize block_fits_Reserve
      block_fits_PushBack block_fits_Insert block_fits_Erase)

text \<open>
  C7, as amended: in every reachable state, a buffer with \<open>capacity > 0\<close> has a non-null
  data pointer, and its block has exactly \<open>capacity\<close> slots. The converse of the claim
  fails (see the counterexample below).
\<close>

theorem capacity_implies_block:
  "reachable \<sigma> \<Longrightarrow>
   (0 < ArrayPtr_GetCapacity (\<sigma> p) \<longrightarrow> m_memory (\<sigma> p) \<noteq> None)
   \<and> length (block (\<sigma> p)) = unat (ArrayPtr_GetCapacity (\<sigma> p))"
proof -
  assume "reachable \<sigma>"
  then have fits: "length (block (\<sigma> p)) = unat (m_capacity (\<sigma> p))"
    using reachable_block_fits [of \<sigma> p] by (simp add: block_fits_def)
  have "m_memory (\<sigma> p) \<noteq> None" if "0 < m_capacity (\<sigma> p)"
  proof
    assume "m_memory (\<sigma> p) = None"
    then have "unat (m_capacity (\<sigma> p)) = 0"
      using fits by (simp add: block_def)
    then show False
      using that by (simp add: unat_eq_0)
  qed
  then show ?thesis
    using fits by (simp add: ArrayPtr_GetCapacity_def)
qed

lemma reachable_one_vector: "reachable one_vector"
  unfolding one_vector_def by (rule init_list_ctor [OF start init_list_123])

lemma copy_of_empty:
  "ArrayPtr_copy_ctor int_env 1 0 (\<lambda>p. ArrayPtr_empty) = Inr copied_empty"
  by (simp add: ArrayPtr_copy_ctor_def ArrayPtr_copy_def new_array_default_init_def
      ArrayPtr_GetCapacity_def ArrayPtr_empty_def int_env_def block_def copied_empty_def Let_def)

theorem capacity_implies_block_witness:
  "reachable one_vector \<and> 0 < ArrayPtr_GetCapacity (one_vector 1)
   \<and> m_memory (one_vector 1) \<noteq> None
   \<and> length (block (one_vector 1)) = unat (ArrayPtr_GetCapacity (one_vector 1))"
proof -
  have "0 < ArrayPtr_GetCapacity (one_vector 1)"
    by (simp add: one_vector_def v123_def ArrayPtr_GetCapacity_def)
  then show ?thesis
    using capacity_implies_block [OF reachable_one_vector, of 1] reachable_one_vector by blast
qed

text \<open>
  The counterexample to C7 as stated: the copy constructor allocates
  \<^verbatim>\<open>new Type[capacity]\<close> also for capacity 0, and \<^verbatim>\<open>new Type[0]\<close> returns a non-null
  pointer; the copy of a default-constructed buffer has a non-null pointer and capacity 0.
\<close>

theorem copy_of_empty_is_not_null:
  "ArrayPtr_copy_ctor int_env 1 0 (\<lambda>p. ArrayPtr_empty) = Inr copied_empty
   \<and> reachable copied_empty
   \<and> \<not> (m_memory (copied_empty 1) \<noteq> None \<longleftrightarrow> 0 < ArrayPtr_GetCapacity (copied_empty 1))"
proof -
  have "reachable copied_empty"
    using copy_of_empty by (rule copy_ctor [OF start])
  moreover have "m_memory (copied_empty 1) \<noteq> None" "\<not> 0 < ArrayPtr_GetCapacity (copied_empty 1)"
    by (simp_all add: copied_empty_def ArrayPtr_GetCapacity_def)
  ultimately show ?thesis
    using copy_of_empty by blast
qed

section \<open>Insert and Erase where they work\<close>

text \<open>
  \<^verbatim>\<open>Erase\<close> copies towards the front, which both ways of running \<^verbatim>\<open>std::copy\<close> do
  alike. \<^verbatim>\<open>Insert\<close> is right when the copy is a \<^verbatim>\<open>memmove\<close> and the block has at least
  \<open>old_size + 2\<close> slots after \<^verbatim>\<open>GrowIfNeed\<close>; then \<^verbatim>\<open>Erase\<close> undoes it.
\<close>

lemma shift_down_prefix:
  "i < n \<Longrightarrow> n \<le> length blk \<Longrightarrow>
   take (n - 1) (take i blk @ take (n - Suc i) (drop (Suc i) blk) @ drop (i + (n - Suc i)) blk)
     = take i (take n blk) @ drop (Suc i) (take n blk)"
proof -
  assume i: "i < n" and n: "n \<le> length blk"
  have a: "length (take i blk) = i"
    using i n by simp
  have b: "length (take (n - Suc i) (drop (Suc i) blk)) = n - Suc i"
    using i n by simp
  have e1: "take (n - 1) (take i blk @ take (n - Suc i) (drop (Suc i) blk) @ drop (i + (n - Suc i)) blk)
     = take i blk @ take (n - Suc i) (drop (Suc i) blk)"
    using i a b by (simp del: length_take length_drop take_all_iff)
  have e2: "take (n - Suc i) (drop (Suc i) blk) = drop (Suc i) (take n blk)"
    using i by (simp add: drop_take)
  have e3: "take i blk = take i (take n blk)"
    using i by (simp add: min_absorb1)
  show ?thesis
    by (subst e1, subst e2, subst e3) (rule refl)
qed

lemma shift_up_prefix:
  "i \<le> n \<Longrightarrow> n + 2 \<le> length blk \<Longrightarrow>
   take (Suc n) ((take (Suc i) blk @ take (Suc n - i) (drop i blk) @ drop (Suc i + (Suc n - i)) blk)[i := x])
     = take i (take n blk) @ [x] @ drop i (take n blk)"
proof -
  assume i: "i \<le> n" and n: "n + 2 \<le> length blk"
  let ?M = "take (Suc n - i) (drop i blk)" and ?D = "drop (Suc i + (Suc n - i)) blk"
  have a: "length (take i blk) = i"
    using i n by simp
  have s: "Suc n - i = Suc (n - i)"
    using i by simp
  have e1: "(take (Suc i) blk @ ?M @ ?D)[i := x] = take i blk @ [x] @ ?M @ ?D"
    using i n by (simp add: take_Suc_conv_app_nth list_update_append)
  have "take (Suc n) (take i blk @ [x] @ ?M @ ?D) = take i blk @ take (Suc n - i) ([x] @ ?M @ ?D)"
    using a i by (simp add: min_absorb2 del: length_take)
  also have "take (Suc n - i) ([x] @ ?M @ ?D) = x # take (n - i) (?M @ ?D)"
    by (simp add: s)
  also have "take (n - i) (?M @ ?D) = take (n - i) (drop i blk)"
    using i n by (simp add: min_absorb1)
  finally have e2: "take (Suc n) (take i blk @ [x] @ ?M @ ?D) = take i blk @ x # take (n - i) (drop i blk)" .
  have e3: "take (n - i) (drop i blk) = drop i (take n blk)"
    using i by (simp add: drop_take)
  have e4: "take i blk = take i (take n blk)"
    using i by (simp add: min_absorb1)
  show ?thesis
    by (subst e1, subst e2, subst e3, subst e4) simp
qed

lemma copy_forward_down:
  "d < first \<Longrightarrow> first + n \<le> length blk \<Longrightarrow>
   copy_forward blk first n d = Inr (take d blk @ take n (drop first blk) @ drop (d + n) blk)"
proof (induction n arbitrary: blk first d)
  case 0
  then show ?case by simp
next
  case (Suc n)
  let ?blk = "blk[d := blk ! first]"
  have "copy_forward blk first (Suc n) d = copy_forward ?blk (Suc first) n (Suc d)"
    using Suc.prems by simp
  also have "\<dots> = Inr (take (Suc d) ?blk @ take n (drop (Suc first) ?blk) @ drop (Suc d + n) ?blk)"
    using Suc.prems by (intro Suc.IH) simp_all
  also have "take (Suc d) ?blk = take d blk @ [blk ! first]"
    using Suc.prems by (simp add: take_Suc_conv_app_nth)
  also have "drop (Suc first) ?blk = drop (Suc first) blk"
    using Suc.prems by simp
  also have "drop (Suc d + n) ?blk = drop (d + Suc n) blk"
    by simp
  also have "(take d blk @ [blk ! first]) @ take n (drop (Suc first) blk) @ drop (d + Suc n) blk
      = take d blk @ take (Suc n) (drop first blk) @ drop (d + Suc n) blk"
    using Suc.prems by (simp add: Cons_nth_drop_Suc [symmetric] del: drop_Suc_Cons)
  finally show ?case .
qed

lemma std_copy_within_down:
  "d < first \<Longrightarrow> first + n \<le> length blk \<Longrightarrow>
   std_copy_within env blk first n d = Inr (take d blk @ take n (drop first blk) @ drop (d + n) blk)"
  by (auto simp: std_copy_within_def copy_memmove_def copy_forward_down)

lemma Erase_ok:
  assumes v: "valid v"
    and pos: "std_distance (SimpleVector_cbegin v) pos = Inr index" "index < SimpleVector_GetSize v"
  shows "\<exists>v'. SimpleVector_Erase env pos v
            = Inr (if index \<ge> SimpleVector_GetSize v - 1 then SimpleVector_end v' else Some index, v')
       \<and> valid v'
       \<and> m_size v' = m_size v - 1 \<and> m_capacity v' = m_capacity v
       \<and> contents v' = take (unat index) (contents v) @ drop (Suc (unat index)) (contents v)"
proof -
  let ?n = "unat (m_size v)" and ?i = "unat index"
  have i: "?i < ?n"
    using pos(2) by (simp add: SimpleVector_GetSize_def ArrayPtr_GetSize_def word_less_nat_alt)
  have n: "?n \<le> length (block v)"
    using v by (rule valid_size_le)
  have nz: "m_size v \<noteq> 0"
    using i by (metis not_less0 unsigned_0)
  then have "m_capacity v \<noteq> 0"
    using v by (auto simp: valid_def)
  then obtain blk where blk: "m_memory v = Some blk" "length blk = unat (m_capacity v)"
    using valid_memory [OF v] by auto
  have b: "block v = blk"
    using blk(1) by (simp add: block_def)
  have "index < m_size v"
    using pos(2) by (simp add: SimpleVector_GetSize_def ArrayPtr_GetSize_def)
  then have isuc: "unat (index + 1) = Suc ?i"
    by (rule unat_plus_one)
  have pred: "unat (m_size v - 1) = ?n - 1"
    using nz by (simp add: unat_minus_one)
  have range: "\<not> m_size v < index + 1"
    using i isuc by (simp add: word_less_nat_alt)
  have iters: "elem_addr v (index + 1) = Some (index + 1)" "SimpleVector_end v = Some (m_size v)"
    "std_next (SimpleVector_begin v) index = Some index"
    using blk(1) nz
    by (simp_all add: elem_addr_def SimpleVector_end_def SimpleVector_begin_def std_next_def
        SimpleVector_IsEmpty_def SimpleVector_GetSize_def ArrayPtr_GetSize_def)
  let ?blk = "take ?i blk @ take (?n - Suc ?i) (drop (Suc ?i) blk) @ drop (?i + (?n - Suc ?i)) blk"
  let ?v' = "ArrayPtr_SetSize (m_size v - 1) (v\<lparr>m_memory := Some ?blk\<rparr>)"
  have "std_copy_within env blk (Suc ?i) (?n - Suc ?i) ?i = Inr ?blk"
    using i n b by (intro std_copy_within_down) simp_all
  then have copy: "std_copy_iter env (Some (index + 1)) (Some (m_size v)) (Some index) v
      = Inr (v\<lparr>m_memory := Some ?blk\<rparr>)"
    using range blk(1) b by (simp add: std_copy_iter_def isuc)
  have erase: "SimpleVector_Erase env pos v
      = Inr (if index \<ge> SimpleVector_GetSize v - 1 then SimpleVector_end ?v' else Some index, ?v')"
    using pos(1) iters copy
    by (simp add: SimpleVector_Erase_def Let_def ArrayPtr_GetSize_def SimpleVector_GetSize_def
        ArrayPtr_SetSize_def elem_addr_def)
  have len: "length ?blk = length blk"
    using i n b by simp
  have "?n \<le> unat (m_capacity v)"
    using n b blk(2) by simp
  then have "unat (m_size v - 1) \<le> unat (m_capacity v)"
    unfolding pred by simp
  then have "valid ?v'"
    by (simp add: valid_def ArrayPtr_SetSize_def block_def word_le_nat_alt len blk(2)
        del: length_append length_take length_drop)
  moreover have "contents ?v' = take ?i (contents v) @ drop (Suc ?i) (contents v)"
    using shift_down_prefix [of ?i ?n blk] i n b
    by (simp add: contents_def ArrayPtr_SetSize_def block_def pred
        del: take_append drop_append take_take)
  ultimately show ?thesis
    using erase by (intro exI [of _ ?v']) (simp add: ArrayPtr_SetSize_def)
qed


lemma Insert_ok:
  assumes mem: "\<forall>n. alloc env n" and v: "valid v"
    and small: "unat (SimpleVector_GetSize v) < 2 ^ 63"
    and pos: "std_distance (SimpleVector_cbegin v) pos = Inr index"
      "index \<le> SimpleVector_GetSize v"
    and grow: "GrowIfNeed env v = Inr v1"
    and room: "unat (SimpleVector_GetSize v) + 2 \<le> unat (SimpleVector_GetCapacity v1)"
    and triv: "is_trivially_copyable env"
  shows "\<exists>v'. SimpleVector_Insert env pos x v = Inr (Some index, v')
       \<and> valid v'
       \<and> m_size v' = m_size v + 1 \<and> m_capacity v' = m_capacity v1
       \<and> contents v' = take (unat index) (contents v) @ [x] @ drop (unat index) (contents v)"
proof -
  let ?n = "unat (m_size v)" and ?i = "unat index"
  have small': "?n < 2 ^ 63"
    using small by (simp add: SimpleVector_GetSize_def ArrayPtr_GetSize_def)
  from GrowIfNeed_ok [OF v small' mem] grow obtain blk where
    blk: "m_memory v1 = Some blk" "length blk = unat (m_capacity v1)"
    and keep: "take ?n blk = contents v"
    by auto
  have len: "?n + 2 \<le> length blk"
    using room blk(2)
    by (simp add: SimpleVector_GetSize_def ArrayPtr_GetSize_def SimpleVector_GetCapacity_def
        ArrayPtr_GetCapacity_def)
  have suc: "unat (m_size v + 1) = Suc ?n"
    using small' by (intro unat_succ [of _ "2 ^ 63"]) simp_all
  then have ne: "m_size v + 1 \<noteq> 0"
    by (metis nat.distinct(1) unsigned_0)
  have i: "?i \<le> ?n"
    using pos(2) by (simp add: SimpleVector_GetSize_def ArrayPtr_GetSize_def word_le_nat_alt)
  then have isuc: "unat (index + 1) = Suc ?i"
    using small' by (intro unat_succ [of _ "2 ^ 63"]) simp_all
  have lt: "\<not> m_size v + 1 < index"
    using i suc by (simp add: word_less_nat_alt)
  let ?v2 = "ArrayPtr_SetSize (m_size v + 1) v1"
  have iters: "elem_addr ?v2 index = Some index" "SimpleVector_end ?v2 = Some (m_size v + 1)"
    "std_next (SimpleVector_begin ?v2) (index + 1) = Some (index + 1)"
    using blk(1) ne
    by (simp_all add: elem_addr_def SimpleVector_end_def SimpleVector_begin_def std_next_def
        SimpleVector_IsEmpty_def SimpleVector_GetSize_def ArrayPtr_GetSize_def ArrayPtr_SetSize_def)
  define moved where "moved = take (Suc ?i) blk @ take (Suc ?n - ?i) (drop ?i blk)
      @ drop (Suc ?i + (Suc ?n - ?i)) blk"
  let ?v' = "?v2\<lparr>m_memory := Some (moved[?i := x])\<rparr>"
  have mlen: "length moved = length blk"
    using i len by (simp add: moved_def)
  have ilt: "?i < length moved"
    using i len by (simp add: mlen)
  have "std_copy_within env blk ?i (Suc ?n - ?i) (Suc ?i) = Inr moved"
    using i len triv by (simp add: std_copy_within_def copy_memmove_def moved_def)
  then have copy: "std_copy_iter env (Some index) (Some (m_size v + 1)) (Some (index + 1)) ?v2
      = Inr (?v2\<lparr>m_memory := Some moved\<rparr>)"
    using lt blk(1)
    by (simp add: std_copy_iter_def suc isuc block_def ArrayPtr_SetSize_def)
  have "ArrayPtr_set index x (?v2\<lparr>m_memory := Some moved\<rparr>) = Inr ?v'"
    using ilt by (simp add: ArrayPtr_set_def ArrayPtr_SetSize_def)
  then have ins: "SimpleVector_Insert env pos x v = Inr (Some index, ?v')"
    using pos(1) grow iters copy
    by (simp add: SimpleVector_Insert_def ArrayPtr_GetSize_def Let_def)
  have "Suc ?n \<le> unat (m_capacity v1)"
    using len blk(2) by simp
  then have "valid ?v'"
    by (simp add: valid_def ArrayPtr_SetSize_def block_def word_le_nat_alt suc mlen blk(2))
  moreover have "contents ?v' = take ?i (contents v) @ [x] @ drop ?i (contents v)"
  proof -
    have "take (Suc ?n) (moved[?i := x]) = take ?i (take ?n blk) @ [x] @ drop ?i (take ?n blk)"
      unfolding moved_def using i len by (intro shift_up_prefix) simp_all
    then show ?thesis
      by (simp add: contents_def ArrayPtr_SetSize_def block_def suc keep [unfolded contents_def])
  qed
  ultimately show ?thesis
    using ins by (intro exI [of _ ?v']) (simp add: ArrayPtr_SetSize_def)
qed

lemma Erase_Insert_roundtrip:
  assumes mem: "\<forall>n. alloc env n" and v: "valid v"
    and small: "unat (SimpleVector_GetSize v) < 2 ^ 63"
    and pos: "std_distance (SimpleVector_cbegin v) pos = Inr index"
      "index \<le> SimpleVector_GetSize v"
    and grow: "GrowIfNeed env v = Inr v1"
    and room: "unat (SimpleVector_GetSize v) + 2 \<le> unat (SimpleVector_GetCapacity v1)"
    and triv: "is_trivially_copyable env"
  shows "\<exists>it v' it' v''. SimpleVector_Insert env pos x v = Inr (it, v')
       \<and> SimpleVector_Erase env it v' = Inr (it', v'')
       \<and> contents v'' = contents v \<and> SimpleVector_GetSize v'' = SimpleVector_GetSize v"
proof -
  let ?n = "unat (m_size v)" and ?i = "unat index"
  from Insert_ok [OF assms, of x] obtain v' where
    ins: "SimpleVector_Insert env pos x v = Inr (Some index, v')"
    and v': "valid v'" "m_size v' = m_size v + 1"
    and c': "contents v' = take ?i (contents v) @ [x] @ drop ?i (contents v)"
    by blast
  have small': "?n < 2 ^ 63"
    using small by (simp add: SimpleVector_GetSize_def ArrayPtr_GetSize_def)
  have suc: "unat (m_size v + 1) = Suc ?n"
    using small' by (intro unat_succ [of _ "2 ^ 63"]) simp_all
  then have ne: "m_size v' \<noteq> 0"
    using v'(2) by (metis nat.distinct(1) unsigned_0)
  then have "m_capacity v' \<noteq> 0"
    using v'(1) by (auto simp: valid_def)
  then obtain blk where "m_memory v' = Some blk"
    using valid_memory [OF v'(1)] by auto
  then have dist: "std_distance (SimpleVector_cbegin v') (Some index) = Inr index"
    using ne
    by (simp add: std_distance_def SimpleVector_cbegin_def SimpleVector_IsEmpty_def
        ArrayPtr_GetSize_def elem_addr_def)
  have i: "?i \<le> ?n"
    using pos(2) by (simp add: SimpleVector_GetSize_def ArrayPtr_GetSize_def word_le_nat_alt)
  then have lt: "index < SimpleVector_GetSize v'"
    using v'(2) suc by (simp add: SimpleVector_GetSize_def ArrayPtr_GetSize_def word_less_nat_alt)
  from Erase_ok [OF v'(1) dist lt, of env] obtain it' v'' where
    er: "SimpleVector_Erase env (Some index) v' = Inr (it', v'')"
    and v'': "m_size v'' = m_size v' - 1"
      "contents v'' = take ?i (contents v') @ drop (Suc ?i) (contents v')"
    by blast
  have "length (contents v) = ?n"
    using v by (rule length_contents)
  then have "take ?i (contents v') @ drop (Suc ?i) (contents v') = contents v"
    using i by (simp add: c')
  then show ?thesis
    using ins er v'' v'(2) by (simp add: SimpleVector_GetSize_def ArrayPtr_GetSize_def)
qed


section \<open>The invariant under the other operations\<close>

text \<open>
  \<^verbatim>\<open>Reserve\<close> keeps the invariant whatever the allocator answers; \<^verbatim>\<open>Resize\<close> keeps it
  when it needs no allocation or the allocation succeeds.
\<close>

lemma valid_Reserve:
  "valid a \<Longrightarrow> \<exists>b. ArrayPtr_Reserve env n a = Inr b \<and> valid b \<and> m_size b = m_size a"
proof -
  assume a: "valid a"
  show ?thesis
  proof (cases "n \<le> m_capacity a \<or> \<not> alloc env n")
    case True
    then have "ArrayPtr_Reserve env n a = Inr a"
      by (auto simp: Reserve_noop Reserve_alloc_fails)
    then show ?thesis using a by simp
  next
    case False
    then have lt: "m_capacity a < n" and mem: "alloc env n"
      by auto
    have "unat (m_size a) \<le> unat n"
      using a lt by (simp add: valid_def word_le_nat_alt word_less_nat_alt)
    moreover have "m_size a \<le> n"
      using a lt by (auto simp: valid_def)
    ultimately show ?thesis
      using Reserve_grow [OF a lt mem] length_contents [OF a]
      by (simp add: valid_def block_def)
  qed
qed

lemma valid_Resize:
  assumes a: "valid a" and mem: "new_size \<le> m_capacity a \<or> alloc env new_size"
  shows "\<exists>b. ArrayPtr_Resize env new_size a = Inr b \<and> valid b \<and> m_size b = new_size"
proof -
  consider (shrink) "new_size \<le> m_size a"
    | (within) "m_size a < new_size" "new_size \<le> m_capacity a"
    | (grow) "m_capacity a < new_size" "alloc env new_size"
    using mem by atomize_elim auto
  then show ?thesis
  proof cases
    case shrink
    moreover have "new_size \<le> m_capacity a"
      using a shrink by (auto simp: valid_def)
    ultimately show ?thesis
      using a Resize_shrink [OF a shrink, of env] by (simp add: valid_def block_def)
  next
    case within
    have "unat (m_size a) + (unat new_size - unat (m_size a)
        + (length (block a) - unat new_size)) = length (block a)"
      using a within by (simp add: valid_def word_le_nat_alt word_less_nat_alt)
    then show ?thesis
      using a within Resize_within [OF a within, of env] length_contents [OF a]
      by (cases "m_memory a") (simp_all add: valid_def block_def)
  next
    case grow
    have "m_size a \<le> new_size"
      using a grow by (auto simp: valid_def)
    then have "unat (m_size a) \<le> unat new_size"
      by (simp add: word_le_nat_alt)
    then show ?thesis
      using Resize_grow [OF a grow] length_contents [OF a]
      by (simp add: valid_def block_def)
  qed
qed

lemma valid_PopBack: "valid v \<Longrightarrow> valid (SimpleVector_PopBack v)"
proof -
  assume v: "valid v"
  have "unat (m_size v - 1) \<le> unat (m_size v)" if "m_size v \<noteq> 0"
    using that by (simp add: unat_minus_one)
  then show ?thesis
    using v
    by (auto simp: SimpleVector_PopBack_def SimpleVector_IsEmpty_def ArrayPtr_GetSize_def
        ArrayPtr_SetSize_def valid_def block_def word_le_nat_alt)
qed

lemma valid_Clear: "valid v \<Longrightarrow> valid (SimpleVector_Clear v)"
  by (simp add: SimpleVector_Clear_def ArrayPtr_SetSize_def valid_def block_def)

section \<open>Where the code departs from the specification\<close>

text \<open>The scenario of the specification, which holds for \<^verbatim>\<open>int\<close> elements.\<close>

lemma Insert_scenario_int:
  "SimpleVector_Insert int_env (std_next (SimpleVector_begin v123) 1) 99 v123
     = Inr (Some 1, \<lparr>m_memory = Some [1, 99, 2, 3, 0, 0], m_size = 4, m_capacity = 6\<rparr>)"
  by code_simp

lemma Erase_scenario_int:
  "SimpleVector_Erase int_env (std_next (SimpleVector_begin v123) 1) v123
     = Inr (Some 1, \<lparr>m_memory = Some [1, 3, 3], m_size = 2, m_capacity = 3\<rparr>)"
  by code_simp

text \<open>
  C1 fails on the code. \<^verbatim>\<open>Insert(begin(), 99)\<close> on the vector built from \<open>{1}\<close> grows
  the block to two slots and then writes to slot 2. With elements of a class type, whose
  \<^verbatim>\<open>std::copy\<close> assigns element by element from the front, \<^verbatim>\<open>Insert(begin() + 1, 99)\<close>
  on \<open>{1, 2, 3}\<close> gives \<open>{1, 99, 2, 2}\<close>.
\<close>

theorem Insert_overruns_block:
  "SimpleVector_init_list int_env [1] = Inr v_one
   \<and> SimpleVector_Insert int_env (SimpleVector_begin v_one) 99 v_one = Inl (OutOfBoundsWrite 2)
   \<and> SimpleVector_init_list class_env [1, 2, 3] = Inr v123
   \<and> SimpleVector_Insert class_env (std_next (SimpleVector_begin v123) 1) 99 v123
       = Inr (Some 1, \<lparr>m_memory = Some [1, 99, 2, 2, 2, 0], m_size = 4, m_capacity = 6\<rparr>)"
  by code_simp

text \<open>
  C2 fails on the code, by the defect of \<^verbatim>\<open>Insert\<close>: on the default-constructed vector
  \<^verbatim>\<open>Insert(begin(), 7)\<close> writes to slot 1 of a block of one slot, and with elements of a
  class type \<^verbatim>\<open>Erase(Insert(begin() + 1, 99))\<close> turns \<open>{1, 2, 3}\<close> into \<open>{1, 2, 2}\<close>.
\<close>

theorem Erase_of_Insert_differs:
  "SimpleVector_Insert int_env (SimpleVector_begin SimpleVector_default) 7 SimpleVector_default
     = Inl (OutOfBoundsWrite 1)
   \<and> bind (SimpleVector_Insert class_env (std_next (SimpleVector_begin v123) 1) 99 v123)
        (\<lambda>(it, v). bind (SimpleVector_Erase class_env it v) (\<lambda>(it, v). Inr (contents v)))
     = Inr [1, 2, 2]
   \<and> contents v123 = [1, 2, 3]"
  by code_simp

text \<open>
  C4 fails on the code. When the allocation fails, \<^verbatim>\<open>Reserve\<close> returns without a word
  and \<^verbatim>\<open>Resize\<close> goes on: for a class type it sets the size to 5 over a capacity of 0
  (so does the sized constructor); for an arithmetic type it writes through the null
  pointer before that.
\<close>

theorem Resize_leaves_size_above_capacity:
  "SimpleVector_Resize (no_memory class_env) 5 SimpleVector_default = Inr oversized
   \<and> SimpleVector_sized (no_memory class_env) 5 = Inr oversized
   \<and> \<not> SimpleVector_GetSize oversized \<le> SimpleVector_GetCapacity oversized
   \<and> SimpleVector_Resize (no_memory int_env) 5 SimpleVector_default = Inl (OutOfBoundsWrite 0)"
  by code_simp

end
